theory Spec2Isabelle
  imports Main "HOL-Library.Word"
begin

unbundle bit_operations_syntax

section \<open>The ACL policy compiler of hscontrol/policy/acls.go\<close>

text \<open>
  A shallow embedding of \<^verbatim>\<open>src/hscontrol/policy/acls.go\<close>. Go strings are
  \<^typ>\<open>string\<close> (byte lists), slices are lists, a \<^verbatim>\<open>(value, error)\<close> return is a sum
  \<open>error + 'a\<close> with \<open>Inl\<close> the error, a nil pointer is \<open>None\<close>. A call that may not
  return (the recursion of \<^verbatim>\<open>ExpandAlias\<close> through the \<^verbatim>\<open>Hosts\<close> table) has an
  \<open>option\<close> around its result, \<open>None\<close> standing for "does not return".
\<close>

subsection \<open>Errors\<close>

text \<open>
  The sentinel errors of lines 22-31. \<open>NumError\<close> stands for the errors of
  \<^verbatim>\<open>strconv\<close>, \<open>LibError\<close> for those of \<^verbatim>\<open>time\<close> and \<^verbatim>\<open>netip\<close>;
  \<open>Errorf msg e\<close> is \<^verbatim>\<open>fmt.Errorf(msg, ..., e)\<close> with \<^verbatim>\<open>%w\<close> wrapping \<open>e\<close> (which the
  source may pass as nil: \<open>None\<close>). The formatted arguments of the message are left out.
\<close>

datatype error =
    ErrEmptyPolicy
  | ErrInvalidAction
  | ErrInvalidGroup
  | ErrInvalidTag
  | ErrInvalidPortFormat
  | ErrWildcardIsNeeded
  | ErrUnknownAutogroup
  | ErrAutogroupSelf
  | NumError string
  | LibError string
  | Errorf string "error option"

text \<open>\<^verbatim>\<open>errors.Is(err, target)\<close> for a sentinel target: follows the \<^verbatim>\<open>%w\<close> chain.\<close>

fun errors_Is :: "error \<Rightarrow> error \<Rightarrow> bool" where
  "errors_Is (Errorf msg (Some e)) target = errors_Is e target"
| "errors_Is (Errorf msg None) target = False"
| "errors_Is e target = (e = target)"

subsection \<open>Strings\<close>

definition autogroupPrefix :: string where "autogroupPrefix = ''autogroup:''"
definition autogroupInternet :: string where "autogroupInternet = ''autogroup:internet''"
definition autogroupSelf :: string where "autogroupSelf = ''autogroup:self''"
definition autogroupMember :: string where "autogroupMember = ''autogroup:member''"
definition autogroupTagged :: string where "autogroupTagged = ''autogroup:tagged''"
definition autogroupNonRoot :: string where "autogroupNonRoot = ''autogroup:nonroot''"
definition autogroupDangerAll :: string where "autogroupDangerAll = ''autogroup:danger-all''"

text \<open>\<^verbatim>\<open>strings.HasPrefix\<close>, \<^verbatim>\<open>strings.HasSuffix\<close>, \<^verbatim>\<open>strings.TrimSuffix\<close>.\<close>

definition HasPrefix :: "string \<Rightarrow> string \<Rightarrow> bool" where
  "HasPrefix s p = (take (length p) s = p)"

definition HasSuffix :: "string \<Rightarrow> string \<Rightarrow> bool" where
  "HasSuffix s p = (length p \<le> length s \<and> drop (length s - length p) s = p)"

definition TrimSuffix :: "string \<Rightarrow> string \<Rightarrow> string" where
  "TrimSuffix s p = (if HasSuffix s p then take (length s - length p) s else s)"

text \<open>
  \<^verbatim>\<open>strings.Split(s, sep)\<close> for a separator of one byte, the only kind the source uses
  (\<^verbatim>\<open>":"\<close>, \<^verbatim>\<open>","\<close>, \<^verbatim>\<open>"-"\<close>, \<^verbatim>\<open>"/"\<close>): one more piece than there are separators,
  so the result is never empty.
\<close>

fun Split :: "string \<Rightarrow> char \<Rightarrow> string list" where
  "Split [] sep = [[]]"
| "Split (c # cs) sep =
     (if c = sep then [] # Split cs sep
      else (case Split cs sep of
              [] \<Rightarrow> [[c]]
            | piece # pieces \<Rightarrow> (c # piece) # pieces))"

definition isDigit :: "char \<Rightarrow> bool" where
  "isDigit c = (48 \<le> (of_char c :: nat) \<and> (of_char c :: nat) \<le> 57)"

definition digitsValue :: "string \<Rightarrow> nat" where
  "digitsValue ds = foldl (\<lambda>n c. 10 * n + ((of_char c :: nat) - 48)) 0 ds"

text \<open>
  \<^verbatim>\<open>strconv.ParseUint(s, util.Base10, util.BitSize16)\<close> followed by the source's
  conversion \<^verbatim>\<open>uint16(...)\<close>: decimal digits only (no sign, no underscore), not empty,
  at most 65535.
\<close>

definition ParseUint16 :: "string \<Rightarrow> error + 16 word" where
  "ParseUint16 s =
     (if s = [] \<or> \<not> list_all isDigit s then Inl (NumError ''invalid syntax'')
      else if digitsValue s > 65535 then Inl (NumError ''value out of range'')
      else Inr (of_nat (digitsValue s)))"

text \<open>
  \<^verbatim>\<open>strconv.Atoi\<close> on a 64-bit platform: an optional sign, then decimal digits, the
  value within the range of \<^verbatim>\<open>int64\<close>.
\<close>

definition Atoi :: "string \<Rightarrow> error + int" where
  "Atoi s =
     (let neg = (s \<noteq> [] \<and> hd s = CHR ''-'');
          ds = (if s \<noteq> [] \<and> (hd s = CHR ''-'' \<or> hd s = CHR ''+'') then tl s else s)
      in if ds = [] \<or> \<not> list_all isDigit ds then Inl (NumError ''invalid syntax'')
         else if neg then
           (if digitsValue ds > 2 ^ 63 then Inl (NumError ''value out of range'')
            else Inr (- int (digitsValue ds)))
         else
           (if digitsValue ds \<ge> 2 ^ 63 then Inl (NumError ''value out of range'')
            else Inr (int (digitsValue ds))))"

definition isWildcard :: "string \<Rightarrow> bool" where
  "isWildcard str = (str = ''*'')"

definition isGroup :: "string \<Rightarrow> bool" where
  "isGroup str = HasPrefix str ''group:''"

definition isTag :: "string \<Rightarrow> bool" where
  "isTag str = HasPrefix str ''tag:''"

definition isAutoGroup :: "string \<Rightarrow> bool" where
  "isAutoGroup str = HasPrefix str autogroupPrefix"

subsection \<open>Protocols and ports\<close>

definition protocolICMP :: int where "protocolICMP = 1"
definition protocolIGMP :: int where "protocolIGMP = 2"
definition protocolIPv4 :: int where "protocolIPv4 = 4"
definition protocolTCP :: int where "protocolTCP = 6"
definition protocolEGP :: int where "protocolEGP = 8"
definition protocolIGP :: int where "protocolIGP = 9"
definition protocolUDP :: int where "protocolUDP = 17"
definition protocolGRE :: int where "protocolGRE = 47"
definition protocolESP :: int where "protocolESP = 50"
definition protocolAH :: int where "protocolAH = 51"
definition protocolIPv6ICMP :: int where "protocolIPv6ICMP = 58"
definition protocolSCTP :: int where "protocolSCTP = 132"

text \<open>
  \<^verbatim>\<open>parseProtocol\<close> (lines 575-613): the protocol numbers (\<open>[]\<close> is the source's nil
  list) and whether the protocol needs the wildcard port.
\<close>

definition parseProtocol :: "string \<Rightarrow> error + (int list \<times> bool)" where
  "parseProtocol protocol =
     (if protocol = [] then Inr ([], False)
      else if protocol = ''igmp'' then Inr ([protocolIGMP], True)
      else if protocol = ''ipv4'' \<or> protocol = ''ip-in-ip'' then Inr ([protocolIPv4], True)
      else if protocol = ''tcp'' then Inr ([protocolTCP], False)
      else if protocol = ''egp'' then Inr ([protocolEGP], True)
      else if protocol = ''igp'' then Inr ([protocolIGP], True)
      else if protocol = ''udp'' then Inr ([protocolUDP], False)
      else if protocol = ''gre'' then Inr ([protocolGRE], True)
      else if protocol = ''esp'' then Inr ([protocolESP], True)
      else if protocol = ''ah'' then Inr ([protocolAH], True)
      else if protocol = ''sctp'' then Inr ([protocolSCTP], False)
      else if protocol = ''icmp'' then Inr ([protocolICMP, protocolIPv6ICMP], True)
      else (case Atoi protocol of
              Inl err \<Rightarrow> Inl (Errorf ''parsing protocol number: %w'' (Some err))
            | Inr protocolNumber \<Rightarrow>
                Inr ([protocolNumber],
                     protocolNumber \<noteq> protocolTCP \<and>
                     protocolNumber \<noteq> protocolUDP \<and>
                     protocolNumber \<noteq> protocolSCTP)))"

record PortRange =
  First :: "16 word"
  Last :: "16 word"

definition portRangeBegin :: "16 word" where "portRangeBegin = 0"
definition portRangeEnd :: "16 word" where "portRangeEnd = 65535"

text \<open>
  \<^verbatim>\<open>expandPorts\<close> (lines 742-788). The loop over the comma-separated pieces carries
  the list \<^verbatim>\<open>ports\<close> built so far.
\<close>

fun expandPorts_loop :: "string list \<Rightarrow> PortRange list \<Rightarrow> error + PortRange list" where
  "expandPorts_loop [] ports = Inr ports"
| "expandPorts_loop (portStr # rest) ports =
     (case Split portStr CHR ''-'' of
        [p] \<Rightarrow>
          (case ParseUint16 p of
             Inl err \<Rightarrow> Inl err
           | Inr port \<Rightarrow> expandPorts_loop rest (ports @ [\<lparr>First = port, Last = port\<rparr>]))
      | [a, b] \<Rightarrow>
          (case ParseUint16 a of
             Inl err \<Rightarrow> Inl err
           | Inr start \<Rightarrow>
               (case ParseUint16 b of
                  Inl err \<Rightarrow> Inl err
                | Inr last' \<Rightarrow> expandPorts_loop rest (ports @ [\<lparr>First = start, Last = last'\<rparr>])))
      | _ \<Rightarrow> Inl ErrInvalidPortFormat)"

definition expandPorts :: "string \<Rightarrow> bool \<Rightarrow> error + PortRange list" where
  "expandPorts portsStr isWild =
     (if isWildcard portsStr then Inr [\<lparr>First = portRangeBegin, Last = portRangeEnd\<rparr>]
      else if isWild then Inl ErrWildcardIsNeeded
      else expandPorts_loop (Split portsStr CHR '','') [])"

subsection \<open>Addresses, prefixes and IP sets\<close>

text \<open>
  The types of the libraries \<^verbatim>\<open>net/netip\<close> and \<^verbatim>\<open>go4.org/netipx\<close>, which are not
  part of the repository. An address is a 32-bit or a 128-bit value with its family; a
  prefix is an address and a number of leading bits and contains the addresses of its
  family that agree with it on those bits. An \<^verbatim>\<open>IPSet\<close> is a set of addresses
  (section 3 of the specification: "a finite union of IPv4/IPv6 prefixes, supporting
  prefix add, prefix remove, containment, overlap"); an \<^verbatim>\<open>IPSetBuilder\<close> is the set
  built so far, and its operations apply in the order of the calls.
\<close>

datatype Addr = IPv4 "32 word" | IPv6 "128 word"

datatype Prefix = Prefix Addr nat

fun Prefix_Contains :: "Prefix \<Rightarrow> Addr \<Rightarrow> bool" where
  "Prefix_Contains (Prefix (IPv4 p) bits) (IPv4 a) =
     (bits \<le> 32 \<and> drop_bit (32 - bits) a = drop_bit (32 - bits) p)"
| "Prefix_Contains (Prefix (IPv6 p) bits) (IPv6 a) =
     (bits \<le> 128 \<and> drop_bit (128 - bits) a = drop_bit (128 - bits) p)"
| "Prefix_Contains p a = False"

fun Prefix_Addr :: "Prefix \<Rightarrow> Addr" where
  "Prefix_Addr (Prefix a bits) = a"

type_synonym IPSet = "Addr set"

type_synonym IPSetBuilder = "Addr set"

definition AddPrefix :: "IPSetBuilder \<Rightarrow> Prefix \<Rightarrow> IPSetBuilder" where
  "AddPrefix build p = build \<union> {a. Prefix_Contains p a}"

definition RemovePrefix :: "IPSetBuilder \<Rightarrow> Prefix \<Rightarrow> IPSetBuilder" where
  "RemovePrefix build p = build - {a. Prefix_Contains p a}"

definition Add :: "IPSetBuilder \<Rightarrow> Addr \<Rightarrow> IPSetBuilder" where
  "Add build ip = insert ip build"

definition AddSet :: "IPSetBuilder \<Rightarrow> IPSet \<Rightarrow> IPSetBuilder" where
  "AddSet build s = build \<union> s"

definition Contains :: "IPSet \<Rightarrow> Addr \<Rightarrow> bool" where
  "Contains s ip = (ip \<in> s)"

definition OverlapsPrefix :: "IPSet \<Rightarrow> Prefix \<Rightarrow> bool" where
  "OverlapsPrefix s p = (\<exists>a. a \<in> s \<and> Prefix_Contains p a)"

text \<open>
  \<^verbatim>\<open>allIPs\<close> (lines 50-62) and \<^verbatim>\<open>theInternet\<close> (lines 66-92). The package variables
  \<^verbatim>\<open>allIPSet\<close> and \<^verbatim>\<open>theInternetSet\<close> are never assigned (line 90 declares a local
  variable of the same name), so each call builds the set again. The prefixes are the
  values of the \<^verbatim>\<open>netip.MustParsePrefix\<close> literals.
\<close>

definition allIPs :: IPSet where
  "allIPs =
     AddPrefix (AddPrefix {}
       (Prefix (IPv6 0) 0))
       (Prefix (IPv4 0) 0)"

definition theInternet :: IPSet where
  "theInternet =
     RemovePrefix (RemovePrefix (RemovePrefix (RemovePrefix
     (RemovePrefix (RemovePrefix (RemovePrefix (RemovePrefix
     (AddPrefix (AddPrefix {}
       (Prefix (IPv6 0x20000000000000000000000000000000) 3))
       (Prefix (IPv4 0) 0))
       (Prefix (IPv6 0xfc000000000000000000000000000000) 7))
       (Prefix (IPv4 0x0a000000) 8))
       (Prefix (IPv4 0xac100000) 12))
       (Prefix (IPv4 0xc0a80000) 16))
       (Prefix (IPv6 0xfd7a115ca1e000000000000000000000) 48))
       (Prefix (IPv4 0x64400000) 10))
       (Prefix (IPv6 0xfe800000000000000000000000000000) 10))
       (Prefix (IPv4 0xa9fe0000) 16)"

subsection \<open>The fleet and the policy\<close>

text \<open>
  Modelled from the spec: the types \<^verbatim>\<open>types.Node\<close>, \<^verbatim>\<open>types.User\<close> and
  \<^verbatim>\<open>tailcfg.Hostinfo\<close> are declared outside \<^verbatim>\<open>src/\<close>. Section 3: "A node has: an
  identity, an owning user (id + name), a list of assigned IP addresses, an optional
  host-info carrying request-tags (self-asserted) and routable-IP prefixes, and a list of
  forced tags (administratively assigned)."
\<close>

record User =
  ID :: nat
  Name :: string

record Hostinfo =
  RequestTags :: "string list"
  RoutableIPs :: "Prefix list"

record Node =
  NodeID :: nat
  NodeUser :: User
  IPAddresses :: "Addr list"
  NodeHostinfo :: "Hostinfo option"
  ForcedTags :: "string list"

type_synonym Nodes = "Node list"

text \<open>
  Modelled from the spec: the methods of \<^verbatim>\<open>types.Node\<close> and \<^verbatim>\<open>types.Nodes\<close> the
  source calls (section 6: \<^verbatim>\<open>node.IPs()\<close>, \<^verbatim>\<open>node.AppendToIPSet(builder)\<close>,
  \<^verbatim>\<open>node.InIPSet(set)\<close>, \<^verbatim>\<open>nodes.FilterByIP(ip)\<close>). \<^verbatim>\<open>InIPSet\<close> holds when the set
  contains one of the node's addresses.
\<close>

definition IPs :: "Node \<Rightarrow> Addr list" where
  "IPs node = IPAddresses node"

definition AppendToIPSet :: "Node \<Rightarrow> IPSetBuilder \<Rightarrow> IPSetBuilder" where
  "AppendToIPSet node build = foldl Add build (IPs node)"

definition InIPSet :: "Node \<Rightarrow> IPSet \<Rightarrow> bool" where
  "InIPSet node s = list_ex (Contains s) (IPs node)"

definition FilterByIP :: "Nodes \<Rightarrow> Addr \<Rightarrow> Nodes" where
  "FilterByIP nodes ip = filter (\<lambda>node. ip \<in> set (IPs node)) nodes"

text \<open>
  Modelled from the spec: the policy types of \<^verbatim>\<open>acls_types.go\<close>, which is not under
  \<^verbatim>\<open>src/\<close>. Section 3: groups map a name to user names, tag owners map a tag to its
  owners, hosts map a name to a prefix; an access rule has an action, an optional
  protocol, sources and destinations; an SSH rule has an action, an optional check
  period, sources, destinations and users. Go maps are association lists read with
  \<^const>\<open>map_of\<close>.
\<close>

record ACL =
  Action :: string
  Protocol :: string
  Sources :: "string list"
  Destinations :: "string list"

record SSH =
  SSH_Action :: string
  SSH_Sources :: "string list"
  SSH_Destinations :: "string list"
  Users :: "string list"
  CheckPeriod :: string

record ACLPolicy =
  Groups :: "(string \<times> string list) list"
  Hosts :: "(string \<times> Prefix) list"
  TagOwners :: "(string \<times> string list) list"
  ACLs :: "ACL list"
  SSHs :: "SSH list"

text \<open>
  The library functions the source calls and whose code is outside \<^verbatim>\<open>src/\<close>, taken
  as parameters: \<^verbatim>\<open>netip.ParseAddr\<close>, \<^verbatim>\<open>netip.ParsePrefix\<close>, the \<^verbatim>\<open>String\<close> methods
  of an address and of a prefix, \<^verbatim>\<open>IPSet.Prefixes\<close>, \<^verbatim>\<open>util.ParseIPSet(_, nil)\<close>,
  \<^verbatim>\<open>time.ParseDuration\<close> (nanoseconds) and
  \<^verbatim>\<open>util.NormalizeToFQDNRulesConfigFromViper\<close>.
\<close>

record lib =
  ParseAddr :: "string \<Rightarrow> Addr option"
  ParsePrefix :: "string \<Rightarrow> Prefix option"
  AddrString :: "Addr \<Rightarrow> string"
  PrefixString :: "Prefix \<Rightarrow> string"
  Prefixes :: "IPSet \<Rightarrow> Prefix list"
  ParseIPSet :: "string \<Rightarrow> error + IPSet"
  ParseDuration :: "string \<Rightarrow> int option"
  NormalizeToFQDNRules :: "string \<Rightarrow> string option"

text \<open>
  \<^verbatim>\<open>util.StringOrPrefixListContains\<close> (outside \<^verbatim>\<open>src/\<close>): whether the list has an
  element equal to the value.
\<close>

definition StringOrPrefixListContains :: "'a list \<Rightarrow> 'a \<Rightarrow> bool" where
  "StringOrPrefixListContains ts t = (t \<in> set ts)"

subsection \<open>Groups, tag owners and tags\<close>

text \<open>\<^verbatim>\<open>expandUsersFromGroup\<close> (lines 826-858).\<close>

fun expandUsersFromGroup_loop :: "lib \<Rightarrow> string list \<Rightarrow> string list \<Rightarrow> error + string list" where
  "expandUsersFromGroup_loop lb [] users = Inr users"
| "expandUsersFromGroup_loop lb (grp0 # rest) users =
     (if isGroup grp0 then
        Inl (Errorf ''%w. A group cannot be composed of groups.'' (Some ErrInvalidGroup))
      else (case NormalizeToFQDNRules lb grp0 of
              None \<Rightarrow> Inl (Errorf ''failed to normalize group %q, err: %w'' (Some ErrInvalidGroup))
            | Some grp \<Rightarrow> expandUsersFromGroup_loop lb rest (users @ [grp])))"

definition expandUsersFromGroup :: "lib \<Rightarrow> ACLPolicy \<Rightarrow> string \<Rightarrow> error + string list" where
  "expandUsersFromGroup lb pol grp0 =
     (case map_of (Groups pol) grp0 of
        None \<Rightarrow> Inl (Errorf ''group %v isn't registered. %w'' (Some ErrInvalidGroup))
      | Some aclGroups \<Rightarrow> expandUsersFromGroup_loop lb aclGroups [])"

text \<open>\<^verbatim>\<open>expandOwnersFromTag\<close> (lines 792-822); the policy pointer may be nil.\<close>

fun expandOwnersFromTag_loop ::
  "lib \<Rightarrow> ACLPolicy \<Rightarrow> string list \<Rightarrow> string list \<Rightarrow> error + string list" where
  "expandOwnersFromTag_loop lb pol [] owners = Inr owners"
| "expandOwnersFromTag_loop lb pol (owner # rest) owners =
     (if isGroup owner then
        (case expandUsersFromGroup lb pol owner of
           Inl err \<Rightarrow> Inl err
         | Inr gs \<Rightarrow> expandOwnersFromTag_loop lb pol rest (owners @ gs))
      else expandOwnersFromTag_loop lb pol rest (owners @ [owner]))"

definition noTagErr :: error where
  "noTagErr = Errorf ''%w. %v isn't owned by a TagOwner. Please add one first.'' (Some ErrInvalidTag)"

definition expandOwnersFromTag :: "lib \<Rightarrow> ACLPolicy option \<Rightarrow> string \<Rightarrow> error + string list" where
  "expandOwnersFromTag lb pol tag =
     (case pol of
        None \<Rightarrow> Inl noTagErr
      | Some p \<Rightarrow>
          (case map_of (TagOwners p) tag of
             None \<Rightarrow> Inl noTagErr
           | Some ows \<Rightarrow> expandOwnersFromTag_loop lb p ows []))"

text \<open>
  \<^verbatim>\<open>TagsOfNode\<close> (lines 1067-1109): the valid and the invalid request tags of a node.
  The source collects each in a Go map and lists the keys, in no fixed order; here they
  come in the order of the request tags, each once. A tag whose owners cannot be
  expanded is invalid: either the error is \<^verbatim>\<open>ErrInvalidTag\<close> (line 1083), or the list
  of owners returned with the error is empty and no owner is found.
\<close>

definition validTag :: "lib \<Rightarrow> ACLPolicy \<Rightarrow> Node \<Rightarrow> string \<Rightarrow> bool" where
  "validTag lb pol node tag =
     (case expandOwnersFromTag lb (Some pol) tag of
        Inl err \<Rightarrow> (if errors_Is err ErrInvalidTag then False else False)
      | Inr owners \<Rightarrow> list_ex (\<lambda>owner. Name (NodeUser node) = owner) owners)"

definition TagsOfNode :: "lib \<Rightarrow> ACLPolicy \<Rightarrow> Node option \<Rightarrow> string list \<times> string list" where
  "TagsOfNode lb pol node =
     (case node of
        None \<Rightarrow> ([], [])
      | Some n \<Rightarrow>
          (case NodeHostinfo n of
             None \<Rightarrow> ([], [])
           | Some hostinfo \<Rightarrow>
               (remdups (filter (validTag lb pol n) (RequestTags hostinfo)),
                remdups (filter (\<lambda>tag. \<not> validTag lb pol n tag) (RequestTags hostinfo)))))"

text \<open>\<^verbatim>\<open>filterNodesByUser\<close> (lines 1111-1120).\<close>

definition filterNodesByUser :: "Nodes \<Rightarrow> string \<Rightarrow> Nodes" where
  "filterNodesByUser nodes user = filter (\<lambda>node. Name (NodeUser node) = user) nodes"

text \<open>
  \<^verbatim>\<open>excludeCorrectlyTaggedNodes\<close> (lines 702-740). The first loop ranges over the
  tags of \<^verbatim>\<open>TagOwners\<close>; line 710 passes \<^verbatim>\<open>user\<close>, not \<^verbatim>\<open>tag\<close>, to
  \<^verbatim>\<open>expandOwnersFromTag\<close>, whose list is empty when it fails.
\<close>

definition excludeCorrectlyTaggedNodes_tags :: "lib \<Rightarrow> ACLPolicy \<Rightarrow> string \<Rightarrow> string list" where
  "excludeCorrectlyTaggedNodes_tags lb aclPolicy user =
     filter
       (\<lambda>tag.
          let owners = (case expandOwnersFromTag lb (Some aclPolicy) user of
                          Inl err \<Rightarrow> []
                        | Inr os \<Rightarrow> os);
              ns = owners @ [user]
          in StringOrPrefixListContains ns user)
       (map fst (TagOwners aclPolicy))"

definition excludeCorrectlyTaggedNodes :: "lib \<Rightarrow> ACLPolicy \<Rightarrow> Nodes \<Rightarrow> string \<Rightarrow> Nodes" where
  "excludeCorrectlyTaggedNodes lb aclPolicy nodes user =
     (let tags = excludeCorrectlyTaggedNodes_tags lb aclPolicy user
      in filter
           (\<lambda>node.
              case NodeHostinfo node of
                None \<Rightarrow> False
              | Some hostinfo \<Rightarrow>
                  \<not> (list_ex (\<lambda>t. StringOrPrefixListContains tags t) (RequestTags hostinfo)
                     \<or> length (ForcedTags node) > 0))
           nodes)"

subsection \<open>Alias expansion\<close>

text \<open>\<^verbatim>\<open>expandIPsFromGroup\<close> (lines 860-878).\<close>

definition appendNodes :: "Nodes \<Rightarrow> IPSetBuilder \<Rightarrow> IPSetBuilder" where
  "appendNodes nodes build = foldl (\<lambda>b node. AppendToIPSet node b) build nodes"

definition expandIPsFromGroup :: "lib \<Rightarrow> ACLPolicy \<Rightarrow> string \<Rightarrow> Nodes \<Rightarrow> error + IPSet" where
  "expandIPsFromGroup lb pol grp0 nodes =
     (case expandUsersFromGroup lb pol grp0 of
        Inl err \<Rightarrow> Inl err
      | Inr users \<Rightarrow>
          Inr (foldl (\<lambda>build user. appendNodes (filterNodesByUser nodes user) build) {} users))"

text \<open>
  \<^verbatim>\<open>expandIPsFromTag\<close> (lines 880-927). \<^verbatim>\<open>expandOwnersFromTag\<close> fails only with
  errors that wrap \<^verbatim>\<open>ErrInvalidTag\<close> or \<^verbatim>\<open>ErrInvalidGroup\<close>.
\<close>

definition expandIPsFromTag :: "lib \<Rightarrow> ACLPolicy \<Rightarrow> string \<Rightarrow> Nodes \<Rightarrow> error + IPSet" where
  "expandIPsFromTag lb pol alias nodes =
     (let build = appendNodes
            (filter (\<lambda>node. StringOrPrefixListContains (ForcedTags node) alias) nodes) {}
      in case expandOwnersFromTag lb (Some pol) alias of
           Inl err \<Rightarrow>
             (if errors_Is err ErrInvalidTag then
                (if length (Prefixes lb build) = 0 then
                   Inl (Errorf ''%w. %v isn't owned by a TagOwner and no forced tags are defined''
                          (Some ErrInvalidTag))
                 else Inr build)
              else Inl err)
         | Inr owners \<Rightarrow>
             Inr (foldl
                    (\<lambda>b user.
                       appendNodes
                         (filter
                            (\<lambda>node. case NodeHostinfo node of
                                       None \<Rightarrow> False
                                     | Some hostinfo \<Rightarrow>
                                         StringOrPrefixListContains (RequestTags hostinfo) alias)
                            (filterNodesByUser nodes user))
                         b)
                    build owners))"

text \<open>
  \<^verbatim>\<open>expandIPsFromUser\<close> (lines 929-948): \<open>None\<close> is the source's \<^verbatim>\<open>nil, nil\<close>, returned
  when no node is left.
\<close>

definition expandIPsFromUser :: "lib \<Rightarrow> ACLPolicy \<Rightarrow> string \<Rightarrow> Nodes \<Rightarrow> IPSet option" where
  "expandIPsFromUser lb pol user nodes =
     (let filteredNodes = excludeCorrectlyTaggedNodes lb pol (filterNodesByUser nodes user) user
      in if length filteredNodes = 0 then None
         else Some (appendNodes filteredNodes {}))"

text \<open>\<^verbatim>\<open>expandIPsFromSingleIP\<close> (lines 950-966), \<^verbatim>\<open>expandIPsFromIPPrefix\<close> (lines 968-989).\<close>

definition expandIPsFromSingleIP :: "Addr \<Rightarrow> Nodes \<Rightarrow> IPSet" where
  "expandIPsFromSingleIP ip nodes = appendNodes (FilterByIP nodes ip) (Add {} ip)"

definition expandIPsFromIPPrefix :: "Prefix \<Rightarrow> Nodes \<Rightarrow> IPSet" where
  "expandIPsFromIPPrefix prefix nodes =
     foldl
       (\<lambda>build node.
          foldl (\<lambda>b ip. if Prefix_Contains prefix ip then AppendToIPSet node b else b)
            build (IPs node))
       (AddPrefix {} prefix) nodes"

text \<open>\<^verbatim>\<open>expandAutoGroup\<close> (lines 991-1046): the cases are tried in the order of the source.\<close>

definition expandAutoGroup :: "lib \<Rightarrow> ACLPolicy \<Rightarrow> string \<Rightarrow> Nodes \<Rightarrow> error + IPSet" where
  "expandAutoGroup lb pol alias nodes =
     (if HasPrefix alias autogroupInternet then Inr theInternet
      else if HasPrefix alias autogroupSelf then
        (if length nodes \<noteq> 0 then
           (let currentNode = nodes ! (length nodes - 1)
            in Inr (appendNodes
                      (filter (\<lambda>node. ID (NodeUser node) = ID (NodeUser currentNode)) nodes) {}))
         else Inr {})
      else if HasPrefix alias autogroupMember then
        Inr (appendNodes
               (filter
                  (\<lambda>node. \<not> (length (ForcedTags node) \<noteq> 0)
                         \<and> \<not> (length (fst (TagsOfNode lb pol (Some node))) \<noteq> 0))
                  nodes) {})
      else if HasPrefix alias autogroupTagged then
        Inr (appendNodes
               (filter
                  (\<lambda>node. if length (ForcedTags node) \<noteq> 0 then True
                         else length (fst (TagsOfNode lb pol (Some node))) \<noteq> 0)
                  nodes) {})
      else if HasPrefix alias autogroupDangerAll then Inr allIPs
      else Inl (Errorf ''%w: %q'' (Some ErrUnknownAutogroup)))"

text \<open>
  \<^verbatim>\<open>ExpandAlias\<close> (lines 643-697). The call at line 681 recurses on the string of the
  host's prefix; a \<^verbatim>\<open>Hosts\<close> entry whose name is the string of its own prefix makes the
  source recurse for ever, so the result is an \<open>option\<close> and \<open>None\<close> means that the call
  does not return.
\<close>

partial_function (option) ExpandAlias ::
  "lib \<Rightarrow> ACLPolicy \<Rightarrow> Nodes \<Rightarrow> string \<Rightarrow> (error + IPSet) option" where
  "ExpandAlias lb pol nodes alias =
     (if isWildcard alias then Some (ParseIPSet lb ''*'')
      else if isGroup alias then Some (expandIPsFromGroup lb pol alias nodes)
      else if isTag alias then Some (expandIPsFromTag lb pol alias nodes)
      else if isAutoGroup alias then Some (expandAutoGroup lb pol alias nodes)
      else (case expandIPsFromUser lb pol alias nodes of
              Some ips \<Rightarrow> Some (Inr ips)
            | None \<Rightarrow>
                (case map_of (Hosts pol) alias of
                   Some h \<Rightarrow> ExpandAlias lb pol nodes (PrefixString lb h)
                 | None \<Rightarrow>
                     (case ParseAddr lb alias of
                        Some ip \<Rightarrow> Some (Inr (expandIPsFromSingleIP ip nodes))
                      | None \<Rightarrow>
                          (case ParsePrefix lb alias of
                             Some prefix \<Rightarrow> Some (Inr (expandIPsFromIPPrefix prefix nodes))
                           | None \<Rightarrow> Some (Inr {}))))))"

text \<open>\<^verbatim>\<open>expandSource\<close> (lines 617-632).\<close>

definition expandSource ::
  "lib \<Rightarrow> ACLPolicy \<Rightarrow> string \<Rightarrow> Nodes \<Rightarrow> (error + string list) option" where
  "expandSource lb pol src nodes =
     (case ExpandAlias lb pol nodes src of
        None \<Rightarrow> None
      | Some (Inl err) \<Rightarrow> Some (Inl err)
      | Some (Inr ipSet) \<Rightarrow> Some (Inr (map (PrefixString lb) (Prefixes lb ipSet))))"

subsection \<open>Filter rules\<close>

text \<open>
  The output types of \<^verbatim>\<open>tailcfg\<close> (section 6 of the specification: a filter rule is
  source-IP strings, destinations of an IP string and a port range, and protocol
  numbers), and \<^verbatim>\<open>tailcfg.FilterAllowAll\<close>.
\<close>

record NetPortRange =
  IP :: string
  Ports :: PortRange

record FilterRule =
  SrcIPs :: "string list"
  DstPorts :: "NetPortRange list"
  IPProto :: "int list"

definition PortRangeAny :: PortRange where
  "PortRangeAny = \<lparr>First = 0, Last = 65535\<rparr>"

definition FilterAllowAll :: "FilterRule list" where
  "FilterAllowAll =
     [\<lparr>SrcIPs = [''*''], DstPorts = [\<lparr>IP = ''*'', Ports = PortRangeAny\<rparr>], IPProto = []\<rparr>]"

text \<open>
  The test of lines 255-256 (and 381-382 for SSH rules) on a destination alias and the
  sources of its rule: the alias begins with \<^verbatim>\<open>autogroup:self\<close> and the sources are not
  the one source \<^verbatim>\<open>autogroup:self\<close> or \<^verbatim>\<open>autogroup:member\<close>.
\<close>

definition autogroupSelfMisuse :: "string list \<Rightarrow> string \<Rightarrow> bool" where
  "autogroupSelfMisuse sources alias =
     (HasPrefix alias autogroupSelf \<and>
      (length sources \<noteq> 1 \<or>
       (sources ! 0 \<noteq> autogroupSelf \<and> sources ! 0 \<noteq> autogroupMember)))"

text \<open>
  \<^verbatim>\<open>parseDestination\<close> (lines 516-563). At line 534 the condition
  \<^verbatim>\<open>err != nil && !maybeIPv6.Is6()\<close> is the condition \<^verbatim>\<open>err != nil\<close>: when
  \<^verbatim>\<open>netip.ParseAddr\<close> fails it returns the zero address, which is not IPv6.
\<close>

definition parseDestination :: "lib \<Rightarrow> string \<Rightarrow> error + (string \<times> string)" where
  "parseDestination lb dest =
     (let tokens = Split dest CHR '':''
      in if length tokens < 2 \<or> length tokens > 3 then
           (let port = tokens ! (length tokens - 1);
                maybeIPv6Str = TrimSuffix dest (CHR '':'' # port);
                filteredMaybeIPv6Str =
                  (if CHR ''/'' \<in> set maybeIPv6Str then Split maybeIPv6Str CHR ''/'' ! 0
                   else maybeIPv6Str)
            in case ParseAddr lb filteredMaybeIPv6Str of
                 None \<Rightarrow>
                   Inl (Errorf ''failed to parse destination, tokens %v: %w''
                          (Some ErrInvalidPortFormat))
               | Some maybeIPv6 \<Rightarrow> Inr (maybeIPv6Str, port))
         else if length tokens = 2 then Inr (tokens ! 0, tokens ! (length tokens - 1))
         else Inr (tokens ! 0 @ '':'' @ tokens ! 1, tokens ! (length tokens - 1)))"

text \<open>
  The body of the loop over \<^verbatim>\<open>acl.Sources\<close> (lines 205-241) works on the variables
  \<^verbatim>\<open>destinations\<close>, \<^verbatim>\<open>acls\<close> and \<^verbatim>\<open>srcIPs\<close>. \<open>splitSelf\<close> is lines 206-235: the source
  to expand, the destinations and the rule list after the split. The synthesized rule
  of lines 228-232 sets no protocol.
\<close>

definition splitSelf ::
  "ACL \<Rightarrow> string \<Rightarrow> string list \<Rightarrow> ACL list \<Rightarrow> string \<times> string list \<times> ACL list" where
  "splitSelf acl src destinations acls =
     (if HasPrefix src autogroupMember then
        (let newDst = filter (\<lambda>dst. HasPrefix dst autogroupSelf) destinations;
             oldDst = filter (\<lambda>dst. \<not> HasPrefix dst autogroupSelf) destinations
         in if length oldDst = 0 then (autogroupSelf, destinations, acls)
            else if length newDst \<noteq> 0 then
              (src, oldDst,
               acls @ [\<lparr>Action = Action acl, Protocol = [],
                        Sources = [autogroupSelf], Destinations = newDst\<rparr>])
            else (src, destinations, acls))
      else (src, destinations, acls))"

fun CompileFilterRules_sources ::
  "lib \<Rightarrow> ACLPolicy \<Rightarrow> Nodes \<Rightarrow> ACL \<Rightarrow> string list \<Rightarrow> string list \<Rightarrow> ACL list \<Rightarrow> string list
     \<Rightarrow> (error + (string list \<times> ACL list \<times> string list)) option" where
  "CompileFilterRules_sources lb pol nodes acl [] destinations acls srcIPs =
     Some (Inr (destinations, acls, srcIPs))"
| "CompileFilterRules_sources lb pol nodes acl (src # rest) destinations acls srcIPs =
     (case splitSelf acl src destinations acls of
        (src', destinations', acls') \<Rightarrow>
          (case expandSource lb pol src' nodes of
             None \<Rightarrow> None
           | Some (Inl err) \<Rightarrow>
               Some (Inl (Errorf ''parsing policy, acl index: %d->%d: %w'' (Some err)))
           | Some (Inr srcs) \<Rightarrow>
               CompileFilterRules_sources lb pol nodes acl rest destinations' acls'
                 (srcIPs @ srcs)))"

text \<open>The loop over \<^verbatim>\<open>destinations\<close> (lines 248-285), carrying \<^verbatim>\<open>destPorts\<close>.\<close>

fun CompileFilterRules_destinations ::
  "lib \<Rightarrow> ACLPolicy \<Rightarrow> Nodes \<Rightarrow> ACL \<Rightarrow> bool \<Rightarrow> string list \<Rightarrow> NetPortRange list
     \<Rightarrow> (error + NetPortRange list) option" where
  "CompileFilterRules_destinations lb pol nodes acl isWild [] destPorts = Some (Inr destPorts)"
| "CompileFilterRules_destinations lb pol nodes acl isWild (dest # rest) destPorts =
     (case parseDestination lb dest of
        Inl err \<Rightarrow> Some (Inl err)
      | Inr (alias, port) \<Rightarrow>
          (if autogroupSelfMisuse (Sources acl) alias then Some (Inl ErrAutogroupSelf)
           else
             (case ExpandAlias lb pol nodes alias of
                None \<Rightarrow> None
              | Some (Inl err) \<Rightarrow> Some (Inl err)
              | Some (Inr expanded) \<Rightarrow>
                  (case expandPorts port isWild of
                     Inl err \<Rightarrow> Some (Inl err)
                   | Inr ports \<Rightarrow>
                       CompileFilterRules_destinations lb pol nodes acl isWild rest
                         (destPorts @
                          concat (map (\<lambda>d. map (\<lambda>p. \<lparr>IP = PrefixString lb d, Ports = p\<rparr>) ports)
                                    (Prefixes lb expanded)))))))"

text \<open>
  One pass of the loop over \<^verbatim>\<open>acls\<close> (lines 197-291) for the rule \<^verbatim>\<open>acl\<close>: the filter
  rule it appends to \<^verbatim>\<open>rules\<close> and the rule list \<^verbatim>\<open>acls\<close> after the pass.
\<close>

definition CompileFilterRules_acl ::
  "lib \<Rightarrow> ACLPolicy \<Rightarrow> Nodes \<Rightarrow> ACL \<Rightarrow> ACL list \<Rightarrow> (error + (FilterRule \<times> ACL list)) option" where
  "CompileFilterRules_acl lb pol nodes acl acls =
     (if Action acl \<noteq> ''accept'' then Some (Inl ErrInvalidAction)
      else
        (case CompileFilterRules_sources lb pol nodes acl (Sources acl) (Destinations acl) acls [] of
           None \<Rightarrow> None
         | Some (Inl err) \<Rightarrow> Some (Inl err)
         | Some (Inr (destinations, acls', srcIPs)) \<Rightarrow>
             (case parseProtocol (Protocol acl) of
                Inl err \<Rightarrow> Some (Inl (Errorf ''parsing policy, protocol err: %w '' (Some err)))
              | Inr (protocols, isWild) \<Rightarrow>
                  (case CompileFilterRules_destinations lb pol nodes acl isWild destinations [] of
                     None \<Rightarrow> None
                   | Some (Inl err) \<Rightarrow> Some (Inl err)
                   | Some (Inr destPorts) \<Rightarrow>
                       Some (Inr (\<lparr>SrcIPs = srcIPs, DstPorts = destPorts, IPProto = protocols\<rparr>,
                                  acls'))))))"

text \<open>
  The loop over \<^verbatim>\<open>acls\<close> (lines 196-292) goes by index over a list that the split
  of \<open>splitSelf\<close> extends. It ends: a pass appends at most one rule, only for a rule
  with a source that begins with \<^verbatim>\<open>autogroup:member\<close>, and the appended rule has the
  one source \<^verbatim>\<open>autogroup:self\<close>.
\<close>

definition hasMemberSource :: "ACL \<Rightarrow> bool" where
  "hasMemberSource acl = list_ex (\<lambda>src. HasPrefix src autogroupMember) (Sources acl)"

lemma splitSelf_no_self:
  assumes "filter (\<lambda>dst. HasPrefix dst autogroupSelf) destinations = []"
  shows "snd (splitSelf acl src destinations acls) = (destinations, acls)"
  using assms by (simp add: splitSelf_def Let_def)

lemma splitSelf_cases:
  "snd (splitSelf acl src destinations acls) = (destinations, acls) \<or>
   (HasPrefix src autogroupMember \<and>
    snd (splitSelf acl src destinations acls) =
      (filter (\<lambda>dst. \<not> HasPrefix dst autogroupSelf) destinations,
       acls @ [\<lparr>Action = Action acl, Protocol = [], Sources = [autogroupSelf],
                Destinations = filter (\<lambda>dst. HasPrefix dst autogroupSelf) destinations\<rparr>]))"
  by (simp add: splitSelf_def Let_def)

lemma sources_no_self:
  assumes "CompileFilterRules_sources lb pol nodes acl srcs destinations acls srcIPs =
             Some (Inr (destinations', acls', srcIPs'))"
      and "filter (\<lambda>dst. HasPrefix dst autogroupSelf) destinations = []"
  shows "destinations' = destinations \<and> acls' = acls"
  using assms
proof (induction srcs arbitrary: srcIPs)
  case Nil
  then show ?case by simp
next
  case (Cons src rest)
  from splitSelf_no_self [OF Cons.prems(2), of acl src acls]
  obtain s' where sp: "splitSelf acl src destinations acls = (s', destinations, acls)"
    by (cases "splitSelf acl src destinations acls") auto
  from Cons.prems(1) sp obtain srcs' where
    "CompileFilterRules_sources lb pol nodes acl rest destinations acls (srcIPs @ srcs') =
       Some (Inr (destinations', acls', srcIPs'))"
    by (auto split: option.splits sum.splits)
  from Cons.IH [OF this Cons.prems(2)] show ?case .
qed

lemma sources_acls:
  assumes "CompileFilterRules_sources lb pol nodes acl srcs destinations acls srcIPs =
             Some (Inr (destinations', acls', srcIPs'))"
  shows "acls' = acls \<or>
         (list_ex (\<lambda>src. HasPrefix src autogroupMember) srcs \<and>
          (\<exists>x. acls' = acls @ [x] \<and> Sources x = [autogroupSelf]))"
  using assms
proof (induction srcs arbitrary: destinations acls srcIPs)
  case Nil
  then show ?case by simp
next
  case (Cons src rest)
  obtain s' d' a' where sp: "splitSelf acl src destinations acls = (s', d', a')"
    by (cases "splitSelf acl src destinations acls") auto
  from Cons.prems sp obtain srcs' where rec:
    "CompileFilterRules_sources lb pol nodes acl rest d' a' (srcIPs @ srcs') =
       Some (Inr (destinations', acls', srcIPs'))"
    by (auto split: option.splits sum.splits)
  from splitSelf_cases [of acl src destinations acls] sp
  consider (same) "d' = destinations" "a' = acls"
    | (split) "HasPrefix src autogroupMember"
        "d' = filter (\<lambda>dst. \<not> HasPrefix dst autogroupSelf) destinations"
        "a' = acls @ [\<lparr>Action = Action acl, Protocol = [], Sources = [autogroupSelf],
                Destinations = filter (\<lambda>dst. HasPrefix dst autogroupSelf) destinations\<rparr>]"
    by auto
  then show ?case
  proof cases
    case same
    with Cons.IH [OF rec] show ?thesis by auto
  next
    case split
    have "filter (\<lambda>dst. HasPrefix dst autogroupSelf) d' = []"
      unfolding split(2) by (simp add: filter_empty_conv)
    from sources_no_self [OF rec this] have "acls' = a'" by simp
    with split show ?thesis by auto
  qed
qed

lemma acl_acls:
  assumes "CompileFilterRules_acl lb pol nodes acl acls = Some (Inr (rule, acls'))"
  shows "acls' = acls \<or>
         (hasMemberSource acl \<and> (\<exists>x. acls' = acls @ [x] \<and> Sources x = [autogroupSelf]))"
proof -
  from assms obtain destinations srcIPs where
    "CompileFilterRules_sources lb pol nodes acl (Sources acl) (Destinations acl) acls [] =
       Some (Inr (destinations, acls', srcIPs))"
    by (auto simp: CompileFilterRules_acl_def split: if_splits option.splits sum.splits prod.splits)
  from sources_acls [OF this] show ?thesis by (simp add: hasMemberSource_def)
qed

lemma not_member_self: "\<not> HasPrefix autogroupSelf autogroupMember"
  by (simp add: HasPrefix_def autogroupSelf_def autogroupMember_def)

function CompileFilterRules_loop ::
  "lib \<Rightarrow> ACLPolicy \<Rightarrow> Nodes \<Rightarrow> ACL list \<Rightarrow> nat \<Rightarrow> FilterRule list
     \<Rightarrow> (error + FilterRule list) option" where
  "CompileFilterRules_loop lb pol nodes acls index rules =
     (if index < length acls then
        (case CompileFilterRules_acl lb pol nodes (acls ! index) acls of
           None \<Rightarrow> None
         | Some (Inl err) \<Rightarrow> Some (Inl err)
         | Some (Inr (rule, acls')) \<Rightarrow>
             CompileFilterRules_loop lb pol nodes acls' (index + 1) (rules @ [rule]))
      else Some (Inr rules))"
  by pat_completeness auto
termination
proof (relation "measure (\<lambda>(lb, pol, nodes, acls, index, rules).
         (length acls - index) + length (filter hasMemberSource (drop index acls)))")
  show "wf (measure (\<lambda>(lb, pol, nodes, acls, index, rules).
         (length acls - index) + length (filter hasMemberSource (drop index acls))))"
    by simp
next
  fix lb pol nodes acls index rules x2 a b x y
  assume lt: "index < length acls"
    and "CompileFilterRules_acl lb pol nodes (acls ! index) acls = Some x2"
    and "x2 = Inr b" and "(x, y) = b"
  then have ok: "CompileFilterRules_acl lb pol nodes (acls ! index) acls = Some (Inr (x, y))"
    by simp
  have dr: "drop index acls = acls ! index # drop (Suc index) acls"
    using lt by (simp add: Cons_nth_drop_Suc)
  from acl_acls [OF ok] show
    "((lb, pol, nodes, y, index + 1, rules @ [x]), (lb, pol, nodes, acls, index, rules))
      \<in> measure (\<lambda>(lb, pol, nodes, acls, index, rules).
         (length acls - index) + length (filter hasMemberSource (drop index acls)))"
  proof
    assume "y = acls"
    with lt dr show ?thesis by auto
  next
    assume "hasMemberSource (acls ! index) \<and> (\<exists>x. y = acls @ [x] \<and> Sources x = [autogroupSelf])"
    then obtain z where m: "hasMemberSource (acls ! index)" and y: "y = acls @ [z]"
      and z: "Sources z = [autogroupSelf]" by auto
    have "\<not> hasMemberSource z" using z not_member_self by (simp add: hasMemberSource_def)
    with lt dr m y show ?thesis by auto
  qed
qed

declare CompileFilterRules_loop.simps [simp del]

text \<open>\<^verbatim>\<open>CompileFilterRules\<close> (lines 186-295); \<open>None\<close> is the nil policy.\<close>

definition CompileFilterRules ::
  "lib \<Rightarrow> ACLPolicy option \<Rightarrow> Nodes \<Rightarrow> (error + FilterRule list) option" where
  "CompileFilterRules lb pol nodes =
     (case pol of
        None \<Rightarrow> Some (Inr FilterAllowAll)
      | Some p \<Rightarrow> CompileFilterRules_loop lb p nodes (ACLs p) 0 [])"

subsection \<open>The per-node reducer\<close>

text \<open>
  \<^verbatim>\<open>ReduceFilterRules\<close> (lines 299-343). \<open>ReduceFilterRules_keeps\<close> is the body of the
  loop labelled \<^verbatim>\<open>DEST_LOOP\<close>: whether the destination is appended to \<^verbatim>\<open>dests\<close>.
\<close>

definition ReduceFilterRules_keeps :: "lib \<Rightarrow> Node \<Rightarrow> NetPortRange \<Rightarrow> bool" where
  "ReduceFilterRules_keeps lb node dest =
     (case ParseIPSet lb (IP dest) of
        Inl err \<Rightarrow> False
      | Inr expanded \<Rightarrow>
          (if InIPSet node expanded then True
           else (case NodeHostinfo node of
                   None \<Rightarrow> False
                 | Some hostinfo \<Rightarrow>
                     (if length (RoutableIPs hostinfo) > 0 then
                        list_ex (\<lambda>routableIP. OverlapsPrefix expanded routableIP)
                          (RoutableIPs hostinfo)
                      else False))))"

definition ReduceFilterRules :: "lib \<Rightarrow> Node \<Rightarrow> FilterRule list \<Rightarrow> FilterRule list" where
  "ReduceFilterRules lb node rules =
     foldl
       (\<lambda>ret rule.
          let dests = filter (ReduceFilterRules_keeps lb node) (DstPorts rule)
          in if length dests > 0 then
               ret @ [\<lparr>SrcIPs = SrcIPs rule, DstPorts = dests, IPProto = IPProto rule\<rparr>]
             else ret)
       [] rules"

subsection \<open>SSH rules\<close>

text \<open>
  The output types of \<^verbatim>\<open>tailcfg\<close> for SSH (section 6 of the specification). The
  session duration is in nanoseconds; the \<^verbatim>\<open>SSHUsers\<close> map is a partial function.
\<close>

record SSHAction =
  Message :: string
  Reject :: bool
  Accept :: bool
  SessionDuration :: int
  AllowAgentForwarding :: bool
  HoldAndDelegate :: string
  AllowLocalPortForwarding :: bool

record SSHPrincipal =
  NodeIP :: string
  UserLogin :: string
  Any :: bool

record SSHRule =
  Principals :: "SSHPrincipal list"
  SSHUsers :: "string \<rightharpoonup> string"
  RuleAction :: SSHAction

record SSHPolicy =
  Rules :: "SSHRule list"

definition acceptAction :: SSHAction where
  "acceptAction =
     \<lparr>Message = [], Reject = False, Accept = True, SessionDuration = 0,
      AllowAgentForwarding = False, HoldAndDelegate = [], AllowLocalPortForwarding = True\<rparr>"

definition rejectAction :: SSHAction where
  "rejectAction =
     \<lparr>Message = [], Reject = True, Accept = False, SessionDuration = 0,
      AllowAgentForwarding = False, HoldAndDelegate = [], AllowLocalPortForwarding = False\<rparr>"

text \<open>\<^verbatim>\<open>sshCheckAction\<close> (lines 499-514).\<close>

definition sshCheckAction :: "lib \<Rightarrow> string \<Rightarrow> error + SSHAction" where
  "sshCheckAction lb duration =
     (case ParseDuration lb duration of
        None \<Rightarrow> Inl (LibError ''time: invalid duration'')
      | Some sessionLength \<Rightarrow>
          Inr \<lparr>Message = [], Reject = False, Accept = True, SessionDuration = sessionLength,
               AllowAgentForwarding = False, HoldAndDelegate = [],
               AllowLocalPortForwarding = True\<rparr>)"

text \<open>
  The loop over the destinations of an SSH rule (lines 380-392), carrying the builder
  \<^verbatim>\<open>dest\<close>; \<^verbatim>\<open>nodes\<close> is \<^verbatim>\<open>append(peers, node)\<close>.
\<close>

fun CompileSSHPolicy_destinations ::
  "lib \<Rightarrow> ACLPolicy \<Rightarrow> Nodes \<Rightarrow> SSH \<Rightarrow> string list \<Rightarrow> IPSetBuilder
     \<Rightarrow> (error + IPSetBuilder) option" where
  "CompileSSHPolicy_destinations lb pol nodes sshACL [] dest = Some (Inr dest)"
| "CompileSSHPolicy_destinations lb pol nodes sshACL (src # rest) dest =
     (if autogroupSelfMisuse (SSH_Sources sshACL) src then Some (Inl ErrAutogroupSelf)
      else
        (case ExpandAlias lb pol nodes src of
           None \<Rightarrow> None
         | Some (Inl err) \<Rightarrow> Some (Inl err)
         | Some (Inr expanded) \<Rightarrow>
             CompileSSHPolicy_destinations lb pol nodes sshACL rest (AddSet dest expanded)))"

text \<open>
  The switch on the action (lines 403-416). The default case returns an error that
  wraps the variable \<^verbatim>\<open>err\<close> of line 394, which is nil there.
\<close>

definition CompileSSHPolicy_action :: "lib \<Rightarrow> SSH \<Rightarrow> error + SSHAction" where
  "CompileSSHPolicy_action lb sshACL =
     (if SSH_Action sshACL = ''accept'' then Inr acceptAction
      else if SSH_Action sshACL = ''check'' then
        (case sshCheckAction lb (CheckPeriod sshACL) of
           Inl err \<Rightarrow>
             Inl (Errorf ''parsing SSH policy, parsing check duration, index: %d: %w'' (Some err))
         | Inr checkAction \<Rightarrow> Inr checkAction)
      else Inl (Errorf ''parsing SSH policy, unknown action %q, index: %d: %w'' None))"

text \<open>
  The split of lines 436-467, which works on the variables \<^verbatim>\<open>destinations\<close> and
  \<^verbatim>\<open>sshs\<close>, and the loop over the sources (lines 419-481), which carries them and the
  principals.
\<close>

definition splitSelfSSH ::
  "SSH \<Rightarrow> string \<Rightarrow> string list \<Rightarrow> SSH list \<Rightarrow> string \<times> string list \<times> SSH list" where
  "splitSelfSSH sshACL rawSrc destinations sshs =
     (if HasPrefix rawSrc autogroupMember then
        (let newDst = filter (\<lambda>dst. HasPrefix dst autogroupSelf) destinations;
             oldDst = filter (\<lambda>dst. \<not> HasPrefix dst autogroupSelf) destinations
         in if length oldDst = 0 then (autogroupSelf, destinations, sshs)
            else if length newDst \<noteq> 0 then
              (rawSrc, oldDst,
               sshs @ [\<lparr>SSH_Action = SSH_Action sshACL, SSH_Sources = [autogroupSelf],
                        SSH_Destinations = newDst, Users = Users sshACL,
                        CheckPeriod = CheckPeriod sshACL\<rparr>])
            else (rawSrc, destinations, sshs))
      else (rawSrc, destinations, sshs))"

fun CompileSSHPolicy_sources ::
  "lib \<Rightarrow> ACLPolicy \<Rightarrow> Nodes \<Rightarrow> SSH \<Rightarrow> string list \<Rightarrow> string list \<Rightarrow> SSH list
     \<Rightarrow> SSHPrincipal list \<Rightarrow> (error + (string list \<times> SSH list \<times> SSHPrincipal list)) option" where
  "CompileSSHPolicy_sources lb pol peers sshACL [] destinations sshs principals =
     Some (Inr (destinations, sshs, principals))"
| "CompileSSHPolicy_sources lb pol peers sshACL (rawSrc # rest) destinations sshs principals =
     (if isWildcard rawSrc then
        CompileSSHPolicy_sources lb pol peers sshACL rest destinations sshs
          (principals @ [\<lparr>NodeIP = [], UserLogin = [], Any = True\<rparr>])
      else if isGroup rawSrc then
        (case expandUsersFromGroup lb pol rawSrc of
           Inl err \<Rightarrow>
             Some (Inl (Errorf
               ''parsing SSH policy, expanding user from group, index: %d->%d: %w'' (Some err)))
         | Inr users \<Rightarrow>
             CompileSSHPolicy_sources lb pol peers sshACL rest destinations sshs
               (principals @ map (\<lambda>user. \<lparr>NodeIP = [], UserLogin = user, Any = False\<rparr>) users))
      else
        (case splitSelfSSH sshACL rawSrc destinations sshs of
           (rawSrc', destinations', sshs') \<Rightarrow>
             (case ExpandAlias lb pol peers rawSrc' of
                None \<Rightarrow> None
              | Some (Inl err) \<Rightarrow>
                  Some (Inl (Errorf
                    ''parsing SSH policy, expanding alias, index: %d->%d: %w'' (Some err)))
              | Some (Inr expandedSrcs) \<Rightarrow>
                  CompileSSHPolicy_sources lb pol peers sshACL rest destinations' sshs'
                    (principals @
                     map (\<lambda>expandedSrc.
                            \<lparr>NodeIP = AddrString lb (Prefix_Addr expandedSrc),
                             UserLogin = [], Any = False\<rparr>)
                       (Prefixes lb expandedSrcs)))))"

text \<open>
  One pass of the loop over \<^verbatim>\<open>sshs\<close> (lines 377-492) for the rule \<^verbatim>\<open>sshACL\<close>: the rule
  it appends to \<^verbatim>\<open>rules\<close> (\<open>None\<close> when line 400 skips the rule) and the list
  \<^verbatim>\<open>sshs\<close> after the pass.
\<close>

definition CompileSSHPolicy_ssh ::
  "lib \<Rightarrow> ACLPolicy \<Rightarrow> Node \<Rightarrow> Nodes \<Rightarrow> SSH \<Rightarrow> SSH list
     \<Rightarrow> (error + (SSHRule option \<times> SSH list)) option" where
  "CompileSSHPolicy_ssh lb pol node peers sshACL sshs =
     (case CompileSSHPolicy_destinations lb pol (peers @ [node]) sshACL
             (SSH_Destinations sshACL) {} of
        None \<Rightarrow> None
      | Some (Inl err) \<Rightarrow> Some (Inl err)
      | Some (Inr destSet) \<Rightarrow>
          (if \<not> InIPSet node destSet then Some (Inr (None, sshs))
           else
             (case CompileSSHPolicy_action lb sshACL of
                Inl err \<Rightarrow> Some (Inl err)
              | Inr action \<Rightarrow>
                  (case CompileSSHPolicy_sources lb pol peers sshACL (SSH_Sources sshACL)
                          (SSH_Destinations sshACL) sshs [] of
                     None \<Rightarrow> None
                   | Some (Inl err) \<Rightarrow> Some (Inl err)
                   | Some (Inr (destinations, sshs', principals)) \<Rightarrow>
                       Some (Inr
                         (Some \<lparr>Principals = principals,
                                 SSHUsers = foldl (\<lambda>userMap user. userMap(user \<mapsto> ''=''))
                                              Map.empty (Users sshACL),
                                 RuleAction = action\<rparr>,
                          sshs'))))))"

text \<open>
  The loop over \<^verbatim>\<open>sshs\<close> (lines 376-492) goes by index over a list that the split
  extends, and ends for the same reason as the loop over \<^verbatim>\<open>acls\<close>.
\<close>

definition hasMemberSourceSSH :: "SSH \<Rightarrow> bool" where
  "hasMemberSourceSSH sshACL = list_ex (\<lambda>src. HasPrefix src autogroupMember) (SSH_Sources sshACL)"

lemma splitSelfSSH_no_self:
  assumes "filter (\<lambda>dst. HasPrefix dst autogroupSelf) destinations = []"
  shows "snd (splitSelfSSH sshACL src destinations sshs) = (destinations, sshs)"
  using assms by (simp add: splitSelfSSH_def Let_def)

lemma splitSelfSSH_cases:
  "snd (splitSelfSSH sshACL src destinations sshs) = (destinations, sshs) \<or>
   (HasPrefix src autogroupMember \<and>
    snd (splitSelfSSH sshACL src destinations sshs) =
      (filter (\<lambda>dst. \<not> HasPrefix dst autogroupSelf) destinations,
       sshs @ [\<lparr>SSH_Action = SSH_Action sshACL, SSH_Sources = [autogroupSelf],
                SSH_Destinations = filter (\<lambda>dst. HasPrefix dst autogroupSelf) destinations,
                Users = Users sshACL, CheckPeriod = CheckPeriod sshACL\<rparr>]))"
  by (simp add: splitSelfSSH_def Let_def)

lemma ssh_sources_no_self:
  assumes "CompileSSHPolicy_sources lb pol peers sshACL srcs destinations sshs principals =
             Some (Inr (destinations', sshs', principals'))"
      and "filter (\<lambda>dst. HasPrefix dst autogroupSelf) destinations = []"
  shows "destinations' = destinations \<and> sshs' = sshs"
  using assms
proof (induction srcs arbitrary: principals)
  case Nil
  then show ?case by simp
next
  case (Cons src rest)
  from splitSelfSSH_no_self [OF Cons.prems(2), of sshACL src sshs]
  obtain s' where sp: "splitSelfSSH sshACL src destinations sshs = (s', destinations, sshs)"
    by (cases "splitSelfSSH sshACL src destinations sshs") auto
  from Cons.prems(1) sp obtain ps where
    "CompileSSHPolicy_sources lb pol peers sshACL rest destinations sshs ps =
       Some (Inr (destinations', sshs', principals'))"
    by (auto split: if_splits option.splits sum.splits)
  from Cons.IH [OF this Cons.prems(2)] show ?case .
qed

lemma ssh_sources_sshs:
  assumes "CompileSSHPolicy_sources lb pol peers sshACL srcs destinations sshs principals =
             Some (Inr (destinations', sshs', principals'))"
  shows "sshs' = sshs \<or>
         (list_ex (\<lambda>src. HasPrefix src autogroupMember) srcs \<and>
          (\<exists>x. sshs' = sshs @ [x] \<and> SSH_Sources x = [autogroupSelf]))"
  using assms
proof (induction srcs arbitrary: destinations sshs principals)
  case Nil
  then show ?case by simp
next
  case (Cons src rest)
  obtain s' d' a' where sp: "splitSelfSSH sshACL src destinations sshs = (s', d', a')"
    by (cases "splitSelfSSH sshACL src destinations sshs") auto
  from Cons.prems sp consider
      (skip) ps where "CompileSSHPolicy_sources lb pol peers sshACL rest destinations sshs ps =
         Some (Inr (destinations', sshs', principals'))"
    | (expand) ps where "CompileSSHPolicy_sources lb pol peers sshACL rest d' a' ps =
         Some (Inr (destinations', sshs', principals'))"
    by (auto split: if_splits option.splits sum.splits)
  then show ?case
  proof cases
    case skip
    from Cons.IH [OF this] show ?thesis by auto
  next
    case expand
    from splitSelfSSH_cases [of sshACL src destinations sshs] sp
    consider (same) "d' = destinations" "a' = sshs"
      | (split) "HasPrefix src autogroupMember"
          "d' = filter (\<lambda>dst. \<not> HasPrefix dst autogroupSelf) destinations"
          "\<exists>x. a' = sshs @ [x] \<and> SSH_Sources x = [autogroupSelf]"
      by auto
    then show ?thesis
    proof cases
      case same
      with Cons.IH [OF expand] show ?thesis by auto
    next
      case split
      have "filter (\<lambda>dst. HasPrefix dst autogroupSelf) d' = []"
        unfolding split(2) by (simp add: filter_empty_conv)
      from ssh_sources_no_self [OF expand this] have "sshs' = a'" by simp
      with split show ?thesis by auto
    qed
  qed
qed

lemma ssh_sshs:
  assumes "CompileSSHPolicy_ssh lb pol node peers sshACL sshs = Some (Inr (rule, sshs'))"
  shows "sshs' = sshs \<or>
         (hasMemberSourceSSH sshACL \<and> (\<exists>x. sshs' = sshs @ [x] \<and> SSH_Sources x = [autogroupSelf]))"
proof -
  from assms consider "sshs' = sshs"
    | destinations principals where
    "CompileSSHPolicy_sources lb pol peers sshACL (SSH_Sources sshACL) (SSH_Destinations sshACL)
       sshs [] = Some (Inr (destinations, sshs', principals))"
    by (auto simp: CompileSSHPolicy_ssh_def split: if_splits option.splits sum.splits prod.splits)
  then show ?thesis
  proof cases
    case 1
    then show ?thesis by simp
  next
    case 2
    from ssh_sources_sshs [OF this] show ?thesis by (simp add: hasMemberSourceSSH_def)
  qed
qed

function CompileSSHPolicy_loop ::
  "lib \<Rightarrow> ACLPolicy \<Rightarrow> Node \<Rightarrow> Nodes \<Rightarrow> SSH list \<Rightarrow> nat \<Rightarrow> SSHRule list
     \<Rightarrow> (error + SSHRule list) option" where
  "CompileSSHPolicy_loop lb pol node peers sshs index rules =
     (if index < length sshs then
        (case CompileSSHPolicy_ssh lb pol node peers (sshs ! index) sshs of
           None \<Rightarrow> None
         | Some (Inl err) \<Rightarrow> Some (Inl err)
         | Some (Inr (rule, sshs')) \<Rightarrow>
             CompileSSHPolicy_loop lb pol node peers sshs' (index + 1)
               (case rule of None \<Rightarrow> rules | Some r \<Rightarrow> rules @ [r]))
      else Some (Inr rules))"
  by pat_completeness auto
termination
proof (relation "measure (\<lambda>(lb, pol, node, peers, sshs, index, rules).
         (length sshs - index) + length (filter hasMemberSourceSSH (drop index sshs)))")
  show "wf (measure (\<lambda>(lb, pol, node, peers, sshs, index, rules).
         (length sshs - index) + length (filter hasMemberSourceSSH (drop index sshs))))"
    by simp
next
  fix lb pol node peers sshs index rules x2 a b x y
  assume lt: "index < length sshs"
    and "CompileSSHPolicy_ssh lb pol node peers (sshs ! index) sshs = Some x2"
    and "x2 = Inr b" and "(x, y) = b"
  then have ok: "CompileSSHPolicy_ssh lb pol node peers (sshs ! index) sshs = Some (Inr (x, y))"
    by simp
  have dr: "drop index sshs = sshs ! index # drop (Suc index) sshs"
    using lt by (simp add: Cons_nth_drop_Suc)
  from ssh_sshs [OF ok] show
    "((lb, pol, node, peers, y, index + 1, case x of None \<Rightarrow> rules | Some r \<Rightarrow> rules @ [r]),
      (lb, pol, node, peers, sshs, index, rules))
      \<in> measure (\<lambda>(lb, pol, node, peers, sshs, index, rules).
         (length sshs - index) + length (filter hasMemberSourceSSH (drop index sshs)))"
  proof
    assume "y = sshs"
    with lt dr show ?thesis by auto
  next
    assume "hasMemberSourceSSH (sshs ! index) \<and>
            (\<exists>x. y = sshs @ [x] \<and> SSH_Sources x = [autogroupSelf])"
    then obtain z where m: "hasMemberSourceSSH (sshs ! index)" and y: "y = sshs @ [z]"
      and z: "SSH_Sources z = [autogroupSelf]" by auto
    have "\<not> hasMemberSourceSSH z" using z not_member_self by (simp add: hasMemberSourceSSH_def)
    with lt dr m y show ?thesis by auto
  qed
qed

declare CompileSSHPolicy_loop.simps [simp del]

text \<open>
  \<^verbatim>\<open>CompileSSHPolicy\<close> (lines 345-497); for the nil policy it returns a nil policy
  and no error.
\<close>

definition CompileSSHPolicy ::
  "lib \<Rightarrow> ACLPolicy option \<Rightarrow> Node \<Rightarrow> Nodes \<Rightarrow> (error + SSHPolicy option) option" where
  "CompileSSHPolicy lb pol node peers =
     (case pol of
        None \<Rightarrow> Some (Inr None)
      | Some p \<Rightarrow>
          (case CompileSSHPolicy_loop lb p node peers (SSHs p) 0 [] of
             None \<Rightarrow> None
           | Some (Inl err) \<Rightarrow> Some (Inl err)
           | Some (Inr rules) \<Rightarrow> Some (Inr (Some \<lparr>Rules = rules\<rparr>))))"

section \<open>Inputs for the examples\<close>

text \<open>
  A library for the examples, which use the one address 100.64.0.1 and pass no IP
  literal, CIDR, duration or group member to the library. On the values the examples
  reach it returns what the libraries return: \<^verbatim>\<open>ParseAddr\<close> and \<^verbatim>\<open>ParsePrefix\<close> reject
  the names \<^verbatim>\<open>alice\<close> and the like; \<^verbatim>\<open>util.ParseIPSet\<close> of the wildcard is the set of
  all addresses; \<^verbatim>\<open>Prefixes\<close> lists the set of all addresses as 0.0.0.0/0 and ::/0 (IPv4
  sorts first), the set of the one address as 100.64.0.1/32 and the empty set as no
  prefix; the \<^verbatim>\<open>String\<close> methods print these three prefixes and the address as
  \<^verbatim>\<open>netip\<close> does. What it returns elsewhere is not used. A policy with no entries.
\<close>

definition testLib :: lib where
  "testLib =
     \<lparr>ParseAddr = (\<lambda>s. None), ParsePrefix = (\<lambda>s. None),
      AddrString = (\<lambda>a. if a = IPv4 0x64400001 then ''100.64.0.1'' else []),
      PrefixString =
        (\<lambda>p. if p = Prefix (IPv4 0) 0 then ''0.0.0.0/0''
             else if p = Prefix (IPv6 0) 0 then ''::/0''
             else if p = Prefix (IPv4 0x64400001) 32 then ''100.64.0.1/32''
             else []),
      Prefixes =
        (\<lambda>s. if s = UNIV then [Prefix (IPv4 0) 0, Prefix (IPv6 0) 0]
             else if s = {IPv4 0x64400001} then [Prefix (IPv4 0x64400001) 32]
             else []),
      ParseIPSet = (\<lambda>s. if s = ''*'' then Inr allIPs else Inl (LibError ''ParseIPSet'')),
      ParseDuration = (\<lambda>s. None),
      NormalizeToFQDNRules = (\<lambda>s. Some s)\<rparr>"

definition emptyPolicy :: ACLPolicy where
  "emptyPolicy = \<lparr>Groups = [], Hosts = [], TagOwners = [], ACLs = [], SSHs = []\<rparr>"


text \<open>
  A policy in which \<^verbatim>\<open>tag:web\<close> is owned by bob, and a node of alice that requests
  \<^verbatim>\<open>tag:web\<close> and has no forced tag.
\<close>

definition alicePolicy :: ACLPolicy where
  "alicePolicy = \<lparr>Groups = [], Hosts = [], TagOwners = [(''tag:web'', [''bob''])],
                   ACLs = [], SSHs = []\<rparr>"

definition aliceNode :: Node where
  "aliceNode = \<lparr>NodeID = 1, NodeUser = \<lparr>ID = 1, Name = ''alice''\<rparr>,
                 IPAddresses = [IPv4 0x64400001],
                 NodeHostinfo = Some \<lparr>RequestTags = [''tag:web''], RoutableIPs = []\<rparr>,
                 ForcedTags = []\<rparr>"

text \<open>
  A policy with one SSH rule that sets no action, from every source to every
  destination.
\<close>

definition rejectSSH :: SSH where
  "rejectSSH = \<lparr>SSH_Action = [], SSH_Sources = [''*''], SSH_Destinations = [''*''],
                Users = [''root''], CheckPeriod = []\<rparr>"

definition sshPolicy :: ACLPolicy where
  "sshPolicy = \<lparr>Groups = [], Hosts = [], TagOwners = [], ACLs = [], SSHs = [rejectSSH]\<rparr>"

text \<open>
  Access rules. \<open>allowACL\<close> allows everything and compiles. \<open>icmpACL\<close> gives a port
  for ICMP; \<open>selfACL\<close> has the destination \<^verbatim>\<open>autogroup:self\<close> and the source \<^verbatim>\<open>alice\<close>;
  \<open>groupPortACL\<close> and \<open>groupSelfACL\<close> are as these two, with a source group that the
  policy does not declare. \<open>splitACL\<close> has the source \<^verbatim>\<open>autogroup:member\<close>, one
  destination that begins with \<^verbatim>\<open>autogroup:self\<close> and one that does not, and
  \<open>synthesizedACL\<close> is the rule that lines 228-232 build from it;
  \<open>twoSourceACL\<close> is as \<open>splitACL\<close> with a second source and no protocol, and
  \<open>groupSplitACL\<close> is as \<open>splitACL\<close> with the undeclared group as its first source and
  no protocol. In the policies \<open>icmpPolicy\<close>, \<open>selfPolicy\<close> and \<open>splitPolicy\<close> the rule
  comes second, after \<open>allowACL\<close>.
\<close>

definition allowACL :: ACL where
  "allowACL = \<lparr>Action = ''accept'', Protocol = [], Sources = [''*''],
               Destinations = [''*:*'']\<rparr>"

definition icmpACL :: ACL where
  "icmpACL = \<lparr>Action = ''accept'', Protocol = ''icmp'', Sources = [''*''],
              Destinations = [''*:22'']\<rparr>"

definition icmpPolicy :: ACLPolicy where
  "icmpPolicy =
     \<lparr>Groups = [], Hosts = [], TagOwners = [], ACLs = [allowACL, icmpACL], SSHs = []\<rparr>"

definition selfACL :: ACL where
  "selfACL = \<lparr>Action = ''accept'', Protocol = [], Sources = [''alice''],
              Destinations = [''autogroup:self:*'']\<rparr>"

definition selfPolicy :: ACLPolicy where
  "selfPolicy =
     \<lparr>Groups = [], Hosts = [], TagOwners = [], ACLs = [allowACL, selfACL], SSHs = []\<rparr>"

definition groupPortACL :: ACL where
  "groupPortACL = \<lparr>Action = ''accept'', Protocol = ''icmp'', Sources = [''group:nope''],
                   Destinations = [''*:22'']\<rparr>"

definition groupPortPolicy :: ACLPolicy where
  "groupPortPolicy =
     \<lparr>Groups = [], Hosts = [], TagOwners = [], ACLs = [groupPortACL], SSHs = []\<rparr>"

definition groupSelfACL :: ACL where
  "groupSelfACL = \<lparr>Action = ''accept'', Protocol = [], Sources = [''group:nope''],
                   Destinations = [''autogroup:self:*'']\<rparr>"

definition groupSelfPolicy :: ACLPolicy where
  "groupSelfPolicy =
     \<lparr>Groups = [], Hosts = [], TagOwners = [], ACLs = [groupSelfACL], SSHs = []\<rparr>"

definition unknownGroupError :: error where
  "unknownGroupError =
     Errorf ''parsing policy, acl index: %d->%d: %w''
       (Some (Errorf ''group %v isn't registered. %w'' (Some ErrInvalidGroup)))"

definition splitACL :: ACL where
  "splitACL = \<lparr>Action = ''accept'', Protocol = ''icmp'', Sources = [''autogroup:member''],
               Destinations = [''autogroup:self:22'', ''*:*'']\<rparr>"

definition splitPolicy :: ACLPolicy where
  "splitPolicy =
     \<lparr>Groups = [], Hosts = [], TagOwners = [], ACLs = [allowACL, splitACL], SSHs = []\<rparr>"

definition synthesizedACL :: ACL where
  "synthesizedACL = \<lparr>Action = ''accept'', Protocol = [], Sources = [autogroupSelf],
                     Destinations = [''autogroup:self:22'']\<rparr>"

definition twoSourceACL :: ACL where
  "twoSourceACL = \<lparr>Action = ''accept'', Protocol = [], Sources = [''autogroup:member'', ''*''],
                   Destinations = [''autogroup:self:22'', ''*:*'']\<rparr>"

definition twoSourcePolicy :: ACLPolicy where
  "twoSourcePolicy =
     \<lparr>Groups = [], Hosts = [], TagOwners = [], ACLs = [twoSourceACL], SSHs = []\<rparr>"

definition groupSplitACL :: ACL where
  "groupSplitACL =
     \<lparr>Action = ''accept'', Protocol = [], Sources = [''group:nope'', ''autogroup:member''],
      Destinations = [''autogroup:self:22'', ''*:*'']\<rparr>"

definition groupSplitPolicy :: ACLPolicy where
  "groupSplitPolicy =
     \<lparr>Groups = [], Hosts = [], TagOwners = [], ACLs = [groupSplitACL], SSHs = []\<rparr>"

text \<open>
  The filter rules that the passes over \<open>allowACL\<close>, over \<open>splitACL\<close> and over the rule
  that the split of \<open>splitACL\<close> appends produce for the fleet of alice's node: the
  wildcard is the two prefixes 0.0.0.0/0 and ::/0, the members and alice's own nodes
  are the one address of her node.
\<close>

definition allowRule :: FilterRule where
  "allowRule =
     \<lparr>SrcIPs = [''0.0.0.0/0'', ''::/0''],
      DstPorts = [\<lparr>IP = ''0.0.0.0/0'', Ports = \<lparr>First = 0, Last = 65535\<rparr>\<rparr>,
                  \<lparr>IP = ''::/0'', Ports = \<lparr>First = 0, Last = 65535\<rparr>\<rparr>],
      IPProto = []\<rparr>"

definition restrictedRule :: FilterRule where
  "restrictedRule =
     \<lparr>SrcIPs = [''100.64.0.1/32''],
      DstPorts = [\<lparr>IP = ''0.0.0.0/0'', Ports = \<lparr>First = 0, Last = 65535\<rparr>\<rparr>,
                  \<lparr>IP = ''::/0'', Ports = \<lparr>First = 0, Last = 65535\<rparr>\<rparr>],
      IPProto = [protocolICMP, protocolIPv6ICMP]\<rparr>"

definition selfRule :: FilterRule where
  "selfRule =
     \<lparr>SrcIPs = [''100.64.0.1/32''],
      DstPorts = [\<lparr>IP = ''100.64.0.1/32'', Ports = \<lparr>First = 22, Last = 22\<rparr>\<rparr>],
      IPProto = []\<rparr>"

section \<open>Properties\<close>

subsection \<open>Helper lemmas on strings\<close>

lemma Split_no_sep: "sep \<notin> set s \<Longrightarrow> Split s sep = [s]"
  by (induction s) auto

lemma Split_at_sep: "sep \<notin> set a \<Longrightarrow> Split (a @ sep # b) sep = a # Split b sep"
  by (induction a) auto

lemma digits_no_sep:
  "list_all isDigit s \<Longrightarrow> CHR ''-'' \<notin> set s \<and> CHR '','' \<notin> set s"
  by (induction s) (auto simp: isDigit_def)

lemma ParseUint16_digits: "ParseUint16 s = Inr n \<Longrightarrow> s \<noteq> [] \<and> list_all isDigit s"
  by (auto simp: ParseUint16_def split: if_splits)

lemma HasPrefix_append: "HasPrefix s p \<longleftrightarrow> (\<exists>r. s = p @ r)"
proof
  assume "HasPrefix s p"
  then have "s = p @ drop (length p) s"
    unfolding HasPrefix_def by (metis append_take_drop_id)
  then show "\<exists>r. s = p @ r" ..
next
  assume "\<exists>r. s = p @ r"
  then show "HasPrefix s p" by (auto simp: HasPrefix_def)
qed

lemma autogroup_not_others:
  assumes "HasPrefix alias autogroupPrefix"
  shows "\<not> isWildcard alias" "\<not> isGroup alias" "\<not> isTag alias" "isAutoGroup alias"
proof -
  from assms obtain r where a: "alias = ''autogroup:'' @ r"
    by (auto simp: HasPrefix_append autogroupPrefix_def)
  show "\<not> isGroup alias" by (simp add: a isGroup_def HasPrefix_def)
  show "\<not> isTag alias" by (simp add: a isTag_def HasPrefix_def)
  show "\<not> isWildcard alias" by (simp add: a isWildcard_def)
  show "isAutoGroup alias" using assms by (simp add: isAutoGroup_def)
qed


subsection \<open>The internet autogroup\<close>

lemma ExpandAlias_internet:
  "ExpandAlias lb pol nodes autogroupInternet = Some (Inr theInternet)"
  by (subst ExpandAlias.simps)
     (simp add: expandAutoGroup_def HasPrefix_def isWildcard_def isGroup_def isTag_def
        isAutoGroup_def autogroupPrefix_def autogroupInternet_def)

lemma theInternet_member:
  "Contains theInternet a \<longleftrightarrow>
     (Prefix_Contains (Prefix (IPv4 0) 0) a \<or>
      Prefix_Contains (Prefix (IPv6 0x20000000000000000000000000000000) 3) a) \<and>
     \<not> Prefix_Contains (Prefix (IPv4 0x0a000000) 8) a \<and>
     \<not> Prefix_Contains (Prefix (IPv4 0xac100000) 12) a \<and>
     \<not> Prefix_Contains (Prefix (IPv4 0xc0a80000) 16) a \<and>
     \<not> Prefix_Contains (Prefix (IPv6 0xfc000000000000000000000000000000) 7) a \<and>
     \<not> Prefix_Contains (Prefix (IPv4 0x64400000) 10) a \<and>
     \<not> Prefix_Contains (Prefix (IPv6 0xfd7a115ca1e000000000000000000000) 48) a \<and>
     \<not> Prefix_Contains (Prefix (IPv6 0xfe800000000000000000000000000000) 10) a \<and>
     \<not> Prefix_Contains (Prefix (IPv4 0xa9fe0000) 16) a"
  unfolding theInternet_def Contains_def AddPrefix_def RemovePrefix_def
  by blast

lemma global_unicast_not_carved:
  fixes w :: "128 word"
  assumes "drop_bit 125 w = 1"
  shows "drop_bit 121 w \<noteq> 0x7e" "drop_bit 80 w \<noteq> 0xfd7a115ca1e0" "drop_bit 118 w \<noteq> 0x3fa"
proof -
  have a: "drop_bit 4 (drop_bit 121 w) = drop_bit 125 w"
    and b: "drop_bit 45 (drop_bit 80 w) = drop_bit 125 w"
    and c: "drop_bit 7 (drop_bit 118 w) = drop_bit 125 w"
    by simp_all
  show "drop_bit 121 w \<noteq> 0x7e"
  proof
    assume "drop_bit 121 w = 0x7e"
    with a assms show False by simp
  qed
  show "drop_bit 80 w \<noteq> 0xfd7a115ca1e0"
  proof
    assume "drop_bit 80 w = 0xfd7a115ca1e0"
    with b assms show False by simp
  qed
  show "drop_bit 118 w \<noteq> 0x3fa"
  proof
    assume "drop_bit 118 w = 0x3fa"
    with c assms show False by simp
  qed
qed

lemma theInternet_IPv6:
  "Contains theInternet (IPv6 w) \<longleftrightarrow>
     Prefix_Contains (Prefix (IPv6 0x20000000000000000000000000000000) 3) (IPv6 w)"
  using global_unicast_not_carved [of w]
  by (auto simp: theInternet_member)


text \<open>
  Scenario 6 of the specification: 10.0.0.1 is not in the set, 8.8.8.8 is.
\<close>

lemma internet_scenario:
  "\<not> Contains theInternet (IPv4 0x0a000001) \<and> Contains theInternet (IPv4 0x08080808)"
  by (simp add: theInternet_member)

text \<open>
  Claim C1, as amended. For every library, policy and fleet, expanding the alias
  \<^verbatim>\<open>autogroup:internet\<close> returns the set \<open>theInternet\<close>, and an address is in that set
  if and only if it lies in \<^verbatim>\<open>0.0.0.0/0\<close> or in \<^verbatim>\<open>2000::/3\<close> and in none of the
  prefixes 10.0.0.0/8, 172.16.0.0/12, 192.168.0.0/16, fc00::/7, 100.64.0.0/10,
  fd7a:115c:a1e0::/48, fe80::/10 and 169.254.0.0/16. The IPv6 part of the set is
  exactly \<^verbatim>\<open>2000::/3\<close> (line 72 adds that prefix, not \<^verbatim>\<open>::/0\<close>), which none of the
  IPv6 carve-outs meets.
\<close>

theorem autogroup_internet_members:
  "ExpandAlias lb pol nodes autogroupInternet = Some (Inr theInternet) \<and>
   (\<forall>a. Contains theInternet a \<longleftrightarrow>
     (Prefix_Contains (Prefix (IPv4 0) 0) a \<or>
      Prefix_Contains (Prefix (IPv6 0x20000000000000000000000000000000) 3) a) \<and>
     \<not> Prefix_Contains (Prefix (IPv4 0x0a000000) 8) a \<and>
     \<not> Prefix_Contains (Prefix (IPv4 0xac100000) 12) a \<and>
     \<not> Prefix_Contains (Prefix (IPv4 0xc0a80000) 16) a \<and>
     \<not> Prefix_Contains (Prefix (IPv6 0xfc000000000000000000000000000000) 7) a \<and>
     \<not> Prefix_Contains (Prefix (IPv4 0x64400000) 10) a \<and>
     \<not> Prefix_Contains (Prefix (IPv6 0xfd7a115ca1e000000000000000000000) 48) a \<and>
     \<not> Prefix_Contains (Prefix (IPv6 0xfe800000000000000000000000000000) 10) a \<and>
     \<not> Prefix_Contains (Prefix (IPv4 0xa9fe0000) 16) a) \<and>
   (\<forall>w. Contains theInternet (IPv6 w) \<longleftrightarrow>
     Prefix_Contains (Prefix (IPv6 0x20000000000000000000000000000000) 3) (IPv6 w))"
  using ExpandAlias_internet theInternet_member theInternet_IPv6 by blast


text \<open>
  Claim C1 as stated fails: the address \<^verbatim>\<open>4000::1\<close> lies in none of the eight
  prefixes, and the expansion of \<^verbatim>\<open>autogroup:internet\<close> does not contain it.
\<close>

theorem autogroup_internet_misses_4000:
  "ExpandAlias testLib emptyPolicy [] autogroupInternet = Some (Inr theInternet) \<and>
   \<not> Contains theInternet (IPv6 0x40000000000000000000000000000001) \<and>
   \<not> Prefix_Contains (Prefix (IPv4 0x0a000000) 8) (IPv6 0x40000000000000000000000000000001) \<and>
   \<not> Prefix_Contains (Prefix (IPv4 0xac100000) 12) (IPv6 0x40000000000000000000000000000001) \<and>
   \<not> Prefix_Contains (Prefix (IPv4 0xc0a80000) 16) (IPv6 0x40000000000000000000000000000001) \<and>
   \<not> Prefix_Contains (Prefix (IPv6 0xfc000000000000000000000000000000) 7)
        (IPv6 0x40000000000000000000000000000001) \<and>
   \<not> Prefix_Contains (Prefix (IPv4 0x64400000) 10) (IPv6 0x40000000000000000000000000000001) \<and>
   \<not> Prefix_Contains (Prefix (IPv6 0xfd7a115ca1e000000000000000000000) 48)
        (IPv6 0x40000000000000000000000000000001) \<and>
   \<not> Prefix_Contains (Prefix (IPv6 0xfe800000000000000000000000000000) 10)
        (IPv6 0x40000000000000000000000000000001) \<and>
   \<not> Prefix_Contains (Prefix (IPv4 0xa9fe0000) 16) (IPv6 0x40000000000000000000000000000001)"
  by (simp add: ExpandAlias_internet theInternet_member)


subsection \<open>Unknown autogroups\<close>

text \<open>
  Claim C7, as amended. For every alias that begins with \<^verbatim>\<open>autogroup:\<close> and does not
  begin with any of \<^verbatim>\<open>autogroup:internet\<close>, \<^verbatim>\<open>autogroup:self\<close>, \<^verbatim>\<open>autogroup:member\<close>,
  \<^verbatim>\<open>autogroup:tagged\<close> and \<^verbatim>\<open>autogroup:danger-all\<close>, alias expansion returns the
  unknown-autogroup error.
\<close>

theorem unknown_autogroup_error:
  assumes "HasPrefix alias autogroupPrefix"
    and "\<not> HasPrefix alias autogroupInternet"
    and "\<not> HasPrefix alias autogroupSelf"
    and "\<not> HasPrefix alias autogroupMember"
    and "\<not> HasPrefix alias autogroupTagged"
    and "\<not> HasPrefix alias autogroupDangerAll"
  shows "ExpandAlias lb pol nodes alias = Some (Inl (Errorf ''%w: %q'' (Some ErrUnknownAutogroup)))"
  using assms autogroup_not_others [OF assms(1)]
  by (subst ExpandAlias.simps) (simp add: expandAutoGroup_def)


text \<open>The witness of claim C7: \<^verbatim>\<open>autogroup:nonroot\<close>.\<close>

theorem unknown_autogroup_nonroot:
  "HasPrefix autogroupNonRoot autogroupPrefix
   \<and> \<not> HasPrefix autogroupNonRoot autogroupInternet
   \<and> \<not> HasPrefix autogroupNonRoot autogroupSelf
   \<and> \<not> HasPrefix autogroupNonRoot autogroupMember
   \<and> \<not> HasPrefix autogroupNonRoot autogroupTagged
   \<and> \<not> HasPrefix autogroupNonRoot autogroupDangerAll
   \<and> ExpandAlias testLib emptyPolicy [] autogroupNonRoot
       = Some (Inl (Errorf ''%w: %q'' (Some ErrUnknownAutogroup)))"
proof -
  have h: "HasPrefix autogroupNonRoot autogroupPrefix"
     "\<not> HasPrefix autogroupNonRoot autogroupInternet"
     "\<not> HasPrefix autogroupNonRoot autogroupSelf"
     "\<not> HasPrefix autogroupNonRoot autogroupMember"
     "\<not> HasPrefix autogroupNonRoot autogroupTagged"
     "\<not> HasPrefix autogroupNonRoot autogroupDangerAll"
    by (simp_all add: HasPrefix_def autogroupNonRoot_def autogroupPrefix_def autogroupInternet_def
        autogroupSelf_def autogroupMember_def autogroupTagged_def autogroupDangerAll_def)
  from unknown_autogroup_error [OF h, of testLib emptyPolicy "[]"] h show ?thesis by simp
qed


text \<open>
  Claim C7 as stated fails: \<^verbatim>\<open>autogroup:selfish\<close> is none of the five names, and its
  expansion succeeds (line 996 matches by prefix), here with the empty set of an empty
  fleet.
\<close>

theorem autogroup_selfish_expands:
  "HasPrefix ''autogroup:selfish'' autogroupPrefix \<and>
   ''autogroup:selfish'' \<noteq> autogroupInternet \<and> ''autogroup:selfish'' \<noteq> autogroupSelf \<and>
   ''autogroup:selfish'' \<noteq> autogroupMember \<and> ''autogroup:selfish'' \<noteq> autogroupTagged \<and>
   ''autogroup:selfish'' \<noteq> autogroupDangerAll \<and>
   ExpandAlias testLib emptyPolicy [] ''autogroup:selfish'' = Some (Inr {})"
  by (subst ExpandAlias.simps)
     (simp add: expandAutoGroup_def HasPrefix_def isWildcard_def isGroup_def isTag_def
        isAutoGroup_def autogroupPrefix_def autogroupInternet_def autogroupSelf_def
        autogroupMember_def autogroupTagged_def autogroupDangerAll_def appendNodes_def)



subsection \<open>The nil policy\<close>

text \<open>
  Claim C9. For every fleet, compiling the filter rules of an absent (nil) policy
  returns, without error, the list \<^verbatim>\<open>tailcfg.FilterAllowAll\<close>.
\<close>

theorem CompileFilterRules_nil_policy:
  "CompileFilterRules lb None nodes = Some (Inr FilterAllowAll)"
  by (simp add: CompileFilterRules_def)

subsection \<open>Port ranges\<close>

text \<open>
  Claim C10. For every port specification \<^verbatim>\<open>N-M\<close> whose parts both parse as 16-bit
  unsigned decimal numbers, \<^verbatim>\<open>expandPorts\<close> (for a protocol that allows ports) returns
  the one range from \<open>N\<close> to \<open>M\<close>, whether or not \<open>N \<le> M\<close>.
\<close>

theorem expandPorts_inverted_range:
  assumes "ParseUint16 N = Inr n" and "ParseUint16 M = Inr m"
  shows "expandPorts (N @ ''-'' @ M) False = Inr [\<lparr>First = n, Last = m\<rparr>]"
proof -
  from assms have dN: "list_all isDigit N" and dM: "list_all isDigit M" and "N \<noteq> []"
    by (auto dest: ParseUint16_digits)
  then have nw: "\<not> isWildcard (N @ ''-'' @ M)"
    by (cases N) (auto simp: isWildcard_def)
  from dN dM have "CHR '','' \<notin> set (N @ ''-'' @ M)"
    by (auto dest: digits_no_sep)
  then have c: "Split (N @ ''-'' @ M) CHR '','' = [N @ ''-'' @ M]"
    by (rule Split_no_sep)
  from dN dM have "CHR ''-'' \<notin> set N" "CHR ''-'' \<notin> set M"
    by (auto dest: digits_no_sep)
  then have d: "Split (N @ ''-'' @ M) CHR ''-'' = [N, M]"
    by (simp add: Split_at_sep Split_no_sep)
  show ?thesis
    using nw assms c d by (simp add: expandPorts_def)
qed


text \<open>The witness of claim C10: the inverted specification \<^verbatim>\<open>443-80\<close> is accepted.\<close>

theorem expandPorts_443_80:
  "ParseUint16 ''443'' = Inr 443 \<and> ParseUint16 ''80'' = Inr 80 \<and> (80 :: 16 word) < 443 \<and>
   expandPorts ''443-80'' False = Inr [\<lparr>First = 443, Last = 80\<rparr>]"
proof -
  have a: "ParseUint16 ''443'' = Inr 443"
    by (simp add: ParseUint16_def isDigit_def digitsValue_def)
  have b: "ParseUint16 ''80'' = Inr 80"
    by (simp add: ParseUint16_def isDigit_def digitsValue_def)
  from expandPorts_inverted_range [OF a b] a b show ?thesis by simp
qed

subsection \<open>Users and tagged nodes\<close>

lemma excluded_tags_all:
  "excludeCorrectlyTaggedNodes_tags lb pol user = map fst (TagOwners pol)"
  by (simp add: excludeCorrectlyTaggedNodes_tags_def StringOrPrefixListContains_def Let_def)


text \<open>
  Claim C4, evaluated at an input where the source departs from it. The node of alice
  carries only \<^verbatim>\<open>tag:web\<close>, which bob owns: \<^verbatim>\<open>TagsOfNode\<close> lists the tag as invalid
  and the node has no forced tag, so the claim puts the node's address 100.64.0.1 in
  the expansion of \<^verbatim>\<open>alice\<close>. \<^verbatim>\<open>excludeCorrectlyTaggedNodes\<close> removes the node all the
  same (\<open>excluded_tags_all\<close>: its tag list is every tag of \<^verbatim>\<open>TagOwners\<close>, whoever owns
  it), \<^verbatim>\<open>expandIPsFromUser\<close> returns nil and the expansion of \<^verbatim>\<open>alice\<close> is empty.
\<close>

theorem user_expansion_drops_foreign_tagged_node:
  "TagsOfNode testLib alicePolicy (Some aliceNode) = ([], [''tag:web'']) \<and>
   ForcedTags aliceNode = [] \<and>
   excludeCorrectlyTaggedNodes testLib alicePolicy [aliceNode] ''alice'' = [] \<and>
   expandIPsFromUser testLib alicePolicy ''alice'' [aliceNode] = None \<and>
   ExpandAlias testLib alicePolicy [aliceNode] ''alice'' = Some (Inr {})"
proof -
  have t: "TagsOfNode testLib alicePolicy (Some aliceNode) = ([], [''tag:web''])"
    by (simp add: TagsOfNode_def validTag_def expandOwnersFromTag_def alicePolicy_def
        aliceNode_def isGroup_def HasPrefix_def)
  have e: "excludeCorrectlyTaggedNodes testLib alicePolicy [aliceNode] ''alice'' = []"
    by (simp add: excludeCorrectlyTaggedNodes_def excluded_tags_all alicePolicy_def
        aliceNode_def StringOrPrefixListContains_def)
  have u: "expandIPsFromUser testLib alicePolicy ''alice'' [aliceNode] = None"
    using e by (simp add: expandIPsFromUser_def filterNodesByUser_def aliceNode_def)
  have f: "map_of (Hosts alicePolicy) ''alice'' = None" "ParseAddr testLib ''alice'' = None"
    "ParsePrefix testLib ''alice'' = None"
    by (simp_all add: alicePolicy_def testLib_def)
  have x: "ExpandAlias testLib alicePolicy [aliceNode] ''alice'' = Some (Inr {})"
    by (subst ExpandAlias.simps)
       (simp add: u f isWildcard_def isGroup_def isTag_def isAutoGroup_def HasPrefix_def
          autogroupPrefix_def)
  show ?thesis using t e u x by (simp add: aliceNode_def)
qed


subsection \<open>The per-node reducer\<close>

text \<open>The pass of \<^verbatim>\<open>ReduceFilterRules\<close> over one rule: the rules it appends to \<^verbatim>\<open>ret\<close>.\<close>

definition reduceRule :: "lib \<Rightarrow> Node \<Rightarrow> FilterRule \<Rightarrow> FilterRule list" where
  "reduceRule lb node rule =
     (if filter (ReduceFilterRules_keeps lb node) (DstPorts rule) = [] then []
      else [\<lparr>SrcIPs = SrcIPs rule,
             DstPorts = filter (ReduceFilterRules_keeps lb node) (DstPorts rule),
             IPProto = IPProto rule\<rparr>])"

lemma foldl_append_concat:
  "foldl (\<lambda>ret x. ret @ g x) acc xs = acc @ concat (map g xs)"
  by (induction xs arbitrary: acc) auto

lemma ReduceFilterRules_concat:
  "ReduceFilterRules lb node rules = concat (map (reduceRule lb node) rules)"
proof -
  have "(\<lambda>ret rule.
          let dests = filter (ReduceFilterRules_keeps lb node) (DstPorts rule)
          in if length dests > 0 then
               ret @ [\<lparr>SrcIPs = SrcIPs rule, DstPorts = dests, IPProto = IPProto rule\<rparr>]
             else ret) = (\<lambda>ret rule. ret @ reduceRule lb node rule)"
    by (auto simp: reduceRule_def Let_def fun_eq_iff)
  then show ?thesis
    by (simp add: ReduceFilterRules_def foldl_append_concat)
qed

lemma reduceRule_idem:
  "concat (map (reduceRule lb node) (reduceRule lb node rule)) = reduceRule lb node rule"
  by (simp add: reduceRule_def)


text \<open>
  Claim C8. For every node and every list of filter rules, reducing the reduced list
  again returns the reduced list.
\<close>

theorem ReduceFilterRules_idempotent:
  "ReduceFilterRules lb node (ReduceFilterRules lb node rules) = ReduceFilterRules lb node rules"
  unfolding ReduceFilterRules_concat
  by (induction rules) (simp_all add: reduceRule_idem)

subsection \<open>SSH actions\<close>

lemma ssh_pass_fails:
  assumes "SSH_Action sshACL \<noteq> ''accept''" and "SSH_Action sshACL \<noteq> ''check''"
    and "CompileSSHPolicy_destinations lb pol (peers @ [node]) sshACL (SSH_Destinations sshACL) {}
           = Some (Inr destSet)"
    and "InIPSet node destSet"
  shows "CompileSSHPolicy_ssh lb pol node peers sshACL sshs =
           Some (Inl (Errorf ''parsing SSH policy, unknown action %q, index: %d: %w'' None))"
  using assms by (simp add: CompileSSHPolicy_ssh_def CompileSSHPolicy_action_def)

lemma ssh_loop_visits:
  assumes "CompileSSHPolicy_loop lb pol node peers sshs index rules = Some (Inr out)"
    and "index \<le> i" and "i < length sshs"
  shows "\<exists>s x. CompileSSHPolicy_ssh lb pol node peers (sshs ! i) s = Some (Inr x)"
  using assms
proof (induction lb pol node peers sshs index rules rule: CompileSSHPolicy_loop.induct)
  case (1 lb pol node peers sshs index rules)
  from "1.prems"(2,3) have lt: "index < length sshs" by simp
  from "1.prems"(1) lt obtain rule sshs' where
    pass: "CompileSSHPolicy_ssh lb pol node peers (sshs ! index) sshs = Some (Inr (rule, sshs'))"
    and rec: "CompileSSHPolicy_loop lb pol node peers sshs' (index + 1)
               (case rule of None \<Rightarrow> rules | Some r \<Rightarrow> rules @ [r]) = Some (Inr out)"
    by (subst (asm) CompileSSHPolicy_loop.simps)
       (auto split: option.splits sum.splits prod.splits)
  show ?case
  proof (cases "i = index")
    case True
    with pass show ?thesis by blast
  next
    case False
    with "1.prems"(2) have le: "index + 1 \<le> i" by simp
    from ssh_sshs [OF pass] "1.prems"(3) have i: "i < length sshs'" and nth: "sshs' ! i = sshs ! i"
      by (auto simp: nth_append)
    from "1.IH" [OF lt pass refl refl rec le i] nth show ?thesis by simp
  qed
qed


text \<open>
  Claim C2, as amended. For every SSH rule whose destinations expand to a set that
  contains the recipient node and whose action string is neither \<^verbatim>\<open>accept\<close> nor
  \<^verbatim>\<open>check\<close> (the empty string included): whenever the loop of \<^verbatim>\<open>CompileSSHPolicy\<close>
  arrives at the rule, the compilation returns the unknown-action error of line 415,
  and if the rule is one of the policy's, \<^verbatim>\<open>CompileSSHPolicy\<close> returns no policy.
\<close>

theorem ssh_unknown_action_fails:
  assumes "SSH_Action sshACL \<noteq> ''accept''" and "SSH_Action sshACL \<noteq> ''check''"
    and "CompileSSHPolicy_destinations lb pol (peers @ [node]) sshACL (SSH_Destinations sshACL) {}
           = Some (Inr destSet)"
    and "InIPSet node destSet"
  shows "(\<forall>sshs index rules. index < length sshs \<and> sshs ! index = sshACL \<longrightarrow>
            CompileSSHPolicy_loop lb pol node peers sshs index rules =
              Some (Inl (Errorf ''parsing SSH policy, unknown action %q, index: %d: %w'' None)))
         \<and> (sshACL \<in> set (SSHs pol) \<longrightarrow>
              (\<forall>p. CompileSSHPolicy lb (Some pol) node peers \<noteq> Some (Inr p)))"
proof (intro conjI allI impI)
  fix sshs index rules
  assume "index < length sshs \<and> sshs ! index = sshACL"
  then show "CompileSSHPolicy_loop lb pol node peers sshs index rules =
              Some (Inl (Errorf ''parsing SSH policy, unknown action %q, index: %d: %w'' None))"
    using ssh_pass_fails [OF assms, of sshs]
    by (subst CompileSSHPolicy_loop.simps) simp
next
  fix p
  assume mem: "sshACL \<in> set (SSHs pol)"
  show "CompileSSHPolicy lb (Some pol) node peers \<noteq> Some (Inr p)"
  proof
    assume "CompileSSHPolicy lb (Some pol) node peers = Some (Inr p)"
    then obtain out where
      "CompileSSHPolicy_loop lb pol node peers (SSHs pol) 0 [] = Some (Inr out)"
      by (auto simp: CompileSSHPolicy_def split: option.splits sum.splits)
    moreover from mem obtain i where "i < length (SSHs pol)" "SSHs pol ! i = sshACL"
      by (auto simp: in_set_conv_nth)
    ultimately obtain s x where
      "CompileSSHPolicy_ssh lb pol node peers sshACL s = Some (Inr x)"
      using ssh_loop_visits [of lb pol node peers "SSHs pol" 0 "[]" out i] by auto
    with ssh_pass_fails [OF assms, of s] show False by simp
  qed
qed

lemma rejectSSH_destinations:
  "CompileSSHPolicy_destinations testLib sshPolicy ([] @ [aliceNode]) rejectSSH
     (SSH_Destinations rejectSSH) {} = Some (Inr allIPs)"
proof -
  have "ExpandAlias testLib sshPolicy [aliceNode] ''*'' = Some (Inr allIPs)"
    by (subst ExpandAlias.simps) (simp add: isWildcard_def testLib_def)
  then show ?thesis
    by (simp add: rejectSSH_def autogroupSelfMisuse_def HasPrefix_def autogroupSelf_def AddSet_def)
qed

lemma aliceNode_in_allIPs: "InIPSet aliceNode allIPs"
  by (simp add: InIPSet_def IPs_def aliceNode_def Contains_def allIPs_def AddPrefix_def)


text \<open>The witness of claim C2: a rule with the empty action that matches every node.\<close>

theorem ssh_empty_action_fails:
  "SSH_Action rejectSSH \<noteq> ''accept'' \<and> SSH_Action rejectSSH \<noteq> ''check'' \<and>
   CompileSSHPolicy_destinations testLib sshPolicy ([] @ [aliceNode]) rejectSSH
     (SSH_Destinations rejectSSH) {} = Some (Inr allIPs) \<and>
   InIPSet aliceNode allIPs \<and>
   CompileSSHPolicy_loop testLib sshPolicy aliceNode [] [rejectSSH] 0 [] =
     Some (Inl (Errorf ''parsing SSH policy, unknown action %q, index: %d: %w'' None)) \<and>
   (\<forall>p. CompileSSHPolicy testLib (Some sshPolicy) aliceNode [] \<noteq> Some (Inr p))"
proof -
  have a: "SSH_Action rejectSSH \<noteq> ''accept''" and b: "SSH_Action rejectSSH \<noteq> ''check''"
    by (simp_all add: rejectSSH_def)
  have m: "rejectSSH \<in> set (SSHs sshPolicy)" by (simp add: sshPolicy_def)
  from ssh_unknown_action_fails [OF a b rejectSSH_destinations aliceNode_in_allIPs] m
  have "CompileSSHPolicy_loop testLib sshPolicy aliceNode [] [rejectSSH] 0 [] =
     Some (Inl (Errorf ''parsing SSH policy, unknown action %q, index: %d: %w'' None))"
    and "\<forall>p. CompileSSHPolicy testLib (Some sshPolicy) aliceNode [] \<noteq> Some (Inr p)"
    by auto
  with a b rejectSSH_destinations aliceNode_in_allIPs show ?thesis by blast
qed


text \<open>
  Claim C2 as stated fails: for the rule with the empty action, whose destination set
  contains the node, \<^verbatim>\<open>CompileSSHPolicy\<close> returns an error and no rule with the reject
  action.
\<close>

theorem ssh_empty_action_not_rejected:
  "SSH_Action rejectSSH = [] \<and>
   CompileSSHPolicy_destinations testLib sshPolicy ([] @ [aliceNode]) rejectSSH
     (SSH_Destinations rejectSSH) {} = Some (Inr allIPs) \<and>
   InIPSet aliceNode allIPs \<and>
   CompileSSHPolicy testLib (Some sshPolicy) aliceNode [] =
     Some (Inl (Errorf ''parsing SSH policy, unknown action %q, index: %d: %w'' None))"
proof -
  have "CompileSSHPolicy_ssh testLib sshPolicy aliceNode [] rejectSSH [rejectSSH] =
     Some (Inl (Errorf ''parsing SSH policy, unknown action %q, index: %d: %w'' None))"
    using rejectSSH_destinations aliceNode_in_allIPs
    by (simp add: CompileSSHPolicy_ssh_def CompileSSHPolicy_action_def rejectSSH_def)
  then have "CompileSSHPolicy_loop testLib sshPolicy aliceNode [] [rejectSSH] 0 [] =
     Some (Inl (Errorf ''parsing SSH policy, unknown action %q, index: %d: %w'' None))"
    by (subst CompileSSHPolicy_loop.simps) simp
  then show ?thesis
    using rejectSSH_destinations aliceNode_in_allIPs
    by (simp add: CompileSSHPolicy_def sshPolicy_def) (simp add: rejectSSH_def)
qed

subsection \<open>The passes of the filter compiler\<close>

text \<open>
  A destination of a rule is moved by the split of lines 206-235 to the synthesized rule
  when the rule has a source that begins with \<^verbatim>\<open>autogroup:member\<close>, the destination
  begins with \<^verbatim>\<open>autogroup:self\<close> and some destination of the rule does not.
\<close>

definition movedBySplit :: "ACL \<Rightarrow> string \<Rightarrow> bool" where
  "movedBySplit acl dest =
     (hasMemberSource acl \<and> HasPrefix dest autogroupSelf \<and>
      list_ex (\<lambda>d. \<not> HasPrefix d autogroupSelf) (Destinations acl))"

lemma autogroupSelfMisuse_sources:
  "autogroupSelfMisuse sources al \<longleftrightarrow>
     HasPrefix al autogroupSelf \<and> sources \<noteq> [autogroupSelf] \<and> sources \<noteq> [autogroupMember]"
proof (cases sources)
  case Nil
  then show ?thesis by (simp add: autogroupSelfMisuse_def)
next
  case (Cons a list)
  then show ?thesis by (cases list) (auto simp: autogroupSelfMisuse_def)
qed

lemma destinations_success_all:
  assumes "CompileFilterRules_destinations lb pol nodes acl isWild ds destPorts = Some (Inr out)"
    and "dest \<in> set ds"
  shows "\<exists>alias port expanded ports.
           parseDestination lb dest = Inr (alias, port) \<and> \<not> autogroupSelfMisuse (Sources acl) alias \<and>
           ExpandAlias lb pol nodes alias = Some (Inr expanded) \<and>
           expandPorts port isWild = Inr ports"
  using assms
proof (induction ds arbitrary: destPorts)
  case Nil
  then show ?case by simp
next
  case (Cons d rest)
  from Cons.prems(1) obtain al port expanded ports dp' where
    d: "parseDestination lb d = Inr (al, port)" "\<not> autogroupSelfMisuse (Sources acl) al"
       "ExpandAlias lb pol nodes al = Some (Inr expanded)"
       "expandPorts port isWild = Inr ports"
    and rest: "CompileFilterRules_destinations lb pol nodes acl isWild rest dp' = Some (Inr out)"
    by (auto split: sum.splits prod.splits if_splits option.splits)
  show ?case
  proof (cases "dest = d")
    case True
    with d show ?thesis by blast
  next
    case False
    with Cons.prems(2) have "dest \<in> set rest" by simp
    from Cons.IH [OF rest this] show ?thesis .
  qed
qed

lemma sources_destinations:
  assumes "CompileFilterRules_sources lb pol nodes acl srcs destinations acls srcIPs =
             Some (Inr (destinations', acls', srcIPs'))"
  shows "destinations' = destinations \<or>
         (list_ex (\<lambda>src. HasPrefix src autogroupMember) srcs \<and>
          destinations' = filter (\<lambda>dst. \<not> HasPrefix dst autogroupSelf) destinations \<and>
          destinations' \<noteq> [])"
  using assms
proof (induction srcs arbitrary: destinations acls srcIPs)
  case Nil
  then show ?case by simp
next
  case (Cons src rest)
  obtain s' d' a' where sp: "splitSelf acl src destinations acls = (s', d', a')"
    by (cases "splitSelf acl src destinations acls") auto
  from Cons.prems sp obtain srcs' where rec:
    "CompileFilterRules_sources lb pol nodes acl rest d' a' (srcIPs @ srcs') =
       Some (Inr (destinations', acls', srcIPs'))"
    by (auto split: option.splits sum.splits)
  from sp consider (same) "d' = destinations"
    | (split) "HasPrefix src autogroupMember"
        "d' = filter (\<lambda>dst. \<not> HasPrefix dst autogroupSelf) destinations" "d' \<noteq> []"
    by (auto simp: splitSelf_def Let_def split: if_splits)
  then show ?case
  proof cases
    case same
    with Cons.IH [OF rec] show ?thesis by auto
  next
    case split
    have "filter (\<lambda>dst. HasPrefix dst autogroupSelf) d' = []"
      unfolding split(2) by (simp add: filter_empty_conv)
    from sources_no_self [OF rec this] have "destinations' = d'" by simp
    with split show ?thesis by auto
  qed
qed

lemma acl_pass_parts:
  assumes "CompileFilterRules_acl lb pol nodes acl acls = Some (Inr (rule, acls'))"
  shows "Action acl = ''accept'' \<and>
         (\<exists>destinations srcIPs protocols isWild destPorts.
            CompileFilterRules_sources lb pol nodes acl (Sources acl) (Destinations acl) acls [] =
              Some (Inr (destinations, acls', srcIPs)) \<and>
            parseProtocol (Protocol acl) = Inr (protocols, isWild) \<and>
            CompileFilterRules_destinations lb pol nodes acl isWild destinations [] =
              Some (Inr destPorts) \<and>
            rule = \<lparr>SrcIPs = srcIPs, DstPorts = destPorts, IPProto = protocols\<rparr>)"
  using assms
  by (auto simp: CompileFilterRules_acl_def split: if_splits option.splits sum.splits prod.splits)

lemma acl_pass_destination:
  assumes "CompileFilterRules_acl lb pol nodes acl acls = Some (Inr (rule, acls'))"
    and "dest \<in> set (Destinations acl)" and "\<not> movedBySplit acl dest"
  shows "\<exists>protocols isWild alias port expanded ports.
           parseProtocol (Protocol acl) = Inr (protocols, isWild) \<and>
           parseDestination lb dest = Inr (alias, port) \<and> \<not> autogroupSelfMisuse (Sources acl) alias \<and>
           ExpandAlias lb pol nodes alias = Some (Inr expanded) \<and>
           expandPorts port isWild = Inr ports"
proof -
  from acl_pass_parts [OF assms(1)] obtain destinations srcIPs protocols isWild destPorts where
    src: "CompileFilterRules_sources lb pol nodes acl (Sources acl) (Destinations acl) acls [] =
              Some (Inr (destinations, acls', srcIPs))"
    and proto: "parseProtocol (Protocol acl) = Inr (protocols, isWild)"
    and dst: "CompileFilterRules_destinations lb pol nodes acl isWild destinations [] =
              Some (Inr destPorts)"
    by blast
  from sources_destinations [OF src] assms(2,3) have "dest \<in> set destinations"
    by (auto simp: movedBySplit_def hasMemberSource_def list_ex_iff)
  from destinations_success_all [OF dst this] proto show ?thesis by blast
qed

lemma filter_loop_visits:
  assumes "CompileFilterRules_loop lb pol nodes acls index rules = Some (Inr out)"
  shows "\<exists>final.
           take (length acls) final = acls \<and>
           length out = length rules + (length final - index) \<and>
           take (length rules) out = rules \<and>
           (\<forall>i. index \<le> i \<and> i < length final \<longrightarrow>
              (\<exists>s r s'. length acls \<le> length s \<and> take (length s') final = s' \<and>
                 CompileFilterRules_acl lb pol nodes (final ! i) s = Some (Inr (r, s')) \<and>
                 out ! (length rules + (i - index)) = r))"
  using assms
proof (induction lb pol nodes acls index rules rule: CompileFilterRules_loop.induct)
  case (1 lb pol nodes acls index rules)
  show ?case
  proof (cases "index < length acls")
    case False
    with "1.prems" have "out = rules"
      by (subst (asm) CompileFilterRules_loop.simps) simp
    with False show ?thesis
      by (intro exI [of _ acls]) auto
  next
    case lt: True
    with "1.prems" obtain rule acls' where
      pass: "CompileFilterRules_acl lb pol nodes (acls ! index) acls = Some (Inr (rule, acls'))"
      and rec: "CompileFilterRules_loop lb pol nodes acls' (index + 1) (rules @ [rule]) =
                  Some (Inr out)"
      by (subst (asm) CompileFilterRules_loop.simps)
         (auto split: option.splits sum.splits prod.splits)
    from "1.IH" [OF lt pass refl refl rec] obtain final where
      f1: "take (length acls') final = acls'"
      and f2: "length out = length (rules @ [rule]) + (length final - (index + 1))"
      and f3: "take (length (rules @ [rule])) out = rules @ [rule]"
      and f4: "\<forall>i. index + 1 \<le> i \<and> i < length final \<longrightarrow>
              (\<exists>s r s'. length acls' \<le> length s \<and> take (length s') final = s' \<and>
                 CompileFilterRules_acl lb pol nodes (final ! i) s = Some (Inr (r, s')) \<and>
                 out ! (length (rules @ [rule]) + (i - (index + 1))) = r)"
      by blast
    from acl_acls [OF pass] obtain extra where ext: "acls' = acls @ extra"
      by auto
    from f1 ext have lenf: "length acls + length extra \<le> length final"
      by (metis length_append length_take min.cobounded1)
    from f1 ext have p1: "take (length acls) final = acls"
      by (metis append_eq_conv_conj take_take length_append le_add1 min.absorb1)
    have p2: "length out = length rules + (length final - index)"
      using f2 lt lenf by simp
    from f3 have p3: "take (length rules) out = rules"
      by (metis append_eq_conv_conj take_take length_append le_add1 min.absorb1)
    from f3 have o: "out ! length rules = rule"
      by (metis length_append_singleton lessI nth_append_length nth_take)
    have fi: "final ! index = acls ! index"
      using p1 lt by (metis nth_take)
    have p4: "\<exists>s r s'. length acls \<le> length s \<and> take (length s') final = s' \<and>
                 CompileFilterRules_acl lb pol nodes (final ! i) s = Some (Inr (r, s')) \<and>
                 out ! (length rules + (i - index)) = r"
      if i: "index \<le> i \<and> i < length final" for i
    proof (cases "i = index")
      case True
      with pass f1 o fi show ?thesis
        by (intro exI [of _ acls] exI [of _ rule] exI [of _ acls'] conjI) simp_all
    next
      case False
      with i have "index + 1 \<le> i \<and> i < length final" by simp
      with f4 obtain s r s' where a: "length acls' \<le> length s"
        and b: "take (length s') final = s'"
        and c: "CompileFilterRules_acl lb pol nodes (final ! i) s = Some (Inr (r, s'))"
        and d: "out ! (length (rules @ [rule]) + (i - (index + 1))) = r" by blast
      have e: "length (rules @ [rule]) + (i - (index + 1)) = length rules + (i - index)"
        using i False by auto
      have d': "out ! (length rules + (i - index)) = r"
        using d unfolding e .
      have a': "length acls \<le> length s" using a ext by simp
      from a' b c d' show ?thesis by blast
    qed
    from p1 p2 p3 p4 show ?thesis by blast
  qed
qed

lemma compile_visits:
  assumes "CompileFilterRules lb (Some pol) nodes = Some (Inr rules)"
    and "acl \<in> set (ACLs pol)"
  shows "\<exists>s x. CompileFilterRules_acl lb pol nodes acl s = Some (Inr x)"
proof -
  from assms(1) have "CompileFilterRules_loop lb pol nodes (ACLs pol) 0 [] = Some (Inr rules)"
    by (simp add: CompileFilterRules_def)
  from filter_loop_visits [OF this] obtain final where
    f1: "take (length (ACLs pol)) final = ACLs pol"
    and f4: "\<forall>i. 0 \<le> i \<and> i < length final \<longrightarrow>
              (\<exists>s r s'. length (ACLs pol) \<le> length s \<and> take (length s') final = s' \<and>
                 CompileFilterRules_acl lb pol nodes (final ! i) s = Some (Inr (r, s')) \<and>
                 rules ! (length ([]::FilterRule list) + (i - 0)) = r)"
    by blast
  from assms(2) obtain i where i: "i < length (ACLs pol)" "ACLs pol ! i = acl"
    by (auto simp: in_set_conv_nth)
  with f1 have "i < length final" "final ! i = acl"
    by (metis length_take min_less_iff_conj, metis nth_take)
  with f4 show ?thesis by blast
qed

text \<open>
  The flag that \<^verbatim>\<open>parseProtocol\<close> returns is set exactly for the protocols other than
  TCP, UDP, SCTP and the empty default.
\<close>

lemma parseProtocol_wildcard_flag:
  assumes "parseProtocol protocol = Inr (protocols, isWild)"
  shows "isWild \<longleftrightarrow>
           protocols \<noteq> [] \<and> protocols \<noteq> [protocolTCP] \<and> protocols \<noteq> [protocolUDP] \<and>
           protocols \<noteq> [protocolSCTP]"
  using assms
  by (auto simp: parseProtocol_def protocolICMP_def protocolIGMP_def protocolIPv4_def
      protocolTCP_def protocolEGP_def protocolIGP_def protocolUDP_def protocolGRE_def
      protocolESP_def protocolAH_def protocolIPv6ICMP_def protocolSCTP_def
      split: if_splits sum.splits)

lemma expandPorts_needs_wildcard:
  "port \<noteq> ''*'' \<Longrightarrow> expandPorts port True = Inl ErrWildcardIsNeeded"
  by (simp add: expandPorts_def isWildcard_def)

lemma ForallNth_Cons:
  assumes "P x y" and "length ys = length xs" and "\<forall>k<length xs. P (xs ! k) (ys ! k)"
  shows "length (y # ys) = length (x # xs) \<and> (\<forall>k<length (x # xs). P ((x # xs) ! k) ((y # ys) ! k))"
  using assms by (auto simp: nth_Cons split: nat.splits)

lemma sources_plain:
  assumes "CompileFilterRules_sources lb pol nodes acl srcs destinations acls srcIPs =
             Some (Inr (destinations', acls', srcIPs'))"
    and "filter (\<lambda>dst. HasPrefix dst autogroupSelf) destinations = []"
    and "destinations \<noteq> []"
  shows "\<exists>ips. length ips = length srcs \<and>
           (\<forall>k<length srcs. expandSource lb pol (srcs ! k) nodes = Some (Inr (ips ! k))) \<and>
           srcIPs' = srcIPs @ concat ips"
  using assms(1)
proof (induction srcs arbitrary: srcIPs)
  case Nil
  then show ?case by simp
next
  case (Cons src rest)
  from assms(2) have "filter (\<lambda>dst. \<not> HasPrefix dst autogroupSelf) destinations = destinations"
    by (simp add: filter_empty_conv)
  with assms(2,3) have sp: "splitSelf acl src destinations acls = (src, destinations, acls)"
    by (simp add: splitSelf_def Let_def)
  from Cons.prems sp obtain x where x: "expandSource lb pol src nodes = Some (Inr x)"
    and rec: "CompileFilterRules_sources lb pol nodes acl rest destinations acls (srcIPs @ x) =
       Some (Inr (destinations', acls', srcIPs'))"
    by (auto split: option.splits sum.splits)
  from Cons.IH [OF rec] obtain ips where ips: "length ips = length rest"
    "\<forall>k<length rest. expandSource lb pol (rest ! k) nodes = Some (Inr (ips ! k))"
    "srcIPs' = (srcIPs @ x) @ concat ips" by blast
  from ForallNth_Cons [of "\<lambda>s i. expandSource lb pol s nodes = Some (Inr i)", OF x ips(1,2)] ips(3)
  have "length (x # ips) = length (src # rest) \<and>
        (\<forall>k<length (src # rest). expandSource lb pol ((src # rest) ! k) nodes = Some (Inr ((x # ips) ! k))) \<and>
        srcIPs' = srcIPs @ concat (x # ips)"
    by simp
  then show ?case by blast
qed

lemma sources_mixed:
  assumes "CompileFilterRules_sources lb pol nodes acl srcs destinations acls srcIPs =
             Some (Inr (destinations', acls', srcIPs'))"
    and "list_ex (\<lambda>src. HasPrefix src autogroupMember) srcs"
    and "filter (\<lambda>dst. HasPrefix dst autogroupSelf) destinations \<noteq> []"
    and "filter (\<lambda>dst. \<not> HasPrefix dst autogroupSelf) destinations \<noteq> []"
  shows "destinations' = filter (\<lambda>dst. \<not> HasPrefix dst autogroupSelf) destinations \<and>
         acls' = acls @ [\<lparr>Action = Action acl, Protocol = [], Sources = [autogroupSelf],
                          Destinations = filter (\<lambda>dst. HasPrefix dst autogroupSelf) destinations\<rparr>] \<and>
         (\<exists>ips. length ips = length srcs \<and>
           (\<forall>k<length srcs. expandSource lb pol (srcs ! k) nodes = Some (Inr (ips ! k))) \<and>
           srcIPs' = srcIPs @ concat ips)"
  using assms(1,2)
proof (induction srcs arbitrary: srcIPs)
  case Nil
  then show ?case by simp
next
  case (Cons src rest)
  let ?old = "filter (\<lambda>dst. \<not> HasPrefix dst autogroupSelf) destinations"
  let ?new = "filter (\<lambda>dst. HasPrefix dst autogroupSelf) destinations"
  let ?syn = "\<lparr>Action = Action acl, Protocol = [], Sources = [autogroupSelf], Destinations = ?new\<rparr>"
  show ?case
  proof (cases "HasPrefix src autogroupMember")
    case True
    with assms(3,4) have sp: "splitSelf acl src destinations acls = (src, ?old, acls @ [?syn])"
      by (simp add: splitSelf_def Let_def)
    from Cons.prems(1) sp obtain x where x: "expandSource lb pol src nodes = Some (Inr x)"
      and rec: "CompileFilterRules_sources lb pol nodes acl rest ?old (acls @ [?syn]) (srcIPs @ x) =
         Some (Inr (destinations', acls', srcIPs'))"
      by (auto split: option.splits sum.splits)
    have ns: "filter (\<lambda>dst. HasPrefix dst autogroupSelf) ?old = []"
      by (simp add: filter_empty_conv)
    from sources_no_self [OF rec ns] have da: "destinations' = ?old" "acls' = acls @ [?syn]"
      by simp_all
    from sources_plain [OF rec ns assms(4)] obtain ips where ips: "length ips = length rest"
      "\<forall>k<length rest. expandSource lb pol (rest ! k) nodes = Some (Inr (ips ! k))"
      "srcIPs' = (srcIPs @ x) @ concat ips" by blast
    from ForallNth_Cons [of "\<lambda>s i. expandSource lb pol s nodes = Some (Inr i)", OF x ips(1,2)] ips(3)
    have "length (x # ips) = length (src # rest) \<and>
        (\<forall>k<length (src # rest). expandSource lb pol ((src # rest) ! k) nodes = Some (Inr ((x # ips) ! k))) \<and>
        srcIPs' = srcIPs @ concat (x # ips)"
      by simp
    with da show ?thesis by blast
  next
    case False
    then have sp: "splitSelf acl src destinations acls = (src, destinations, acls)"
      by (simp add: splitSelf_def)
    from Cons.prems(1) sp obtain x where x: "expandSource lb pol src nodes = Some (Inr x)"
      and rec: "CompileFilterRules_sources lb pol nodes acl rest destinations acls (srcIPs @ x) =
         Some (Inr (destinations', acls', srcIPs'))"
      by (auto split: option.splits sum.splits)
    from Cons.prems(2) False have "list_ex (\<lambda>src. HasPrefix src autogroupMember) rest" by simp
    from Cons.IH [OF rec this] obtain ips where da: "destinations' = ?old" "acls' = acls @ [?syn]"
      and ips: "length ips = length rest"
      "\<forall>k<length rest. expandSource lb pol (rest ! k) nodes = Some (Inr (ips ! k))"
      "srcIPs' = (srcIPs @ x) @ concat ips" by blast
    from ForallNth_Cons [of "\<lambda>s i. expandSource lb pol s nodes = Some (Inr i)", OF x ips(1,2)] ips(3)
    have "length (x # ips) = length (src # rest) \<and>
        (\<forall>k<length (src # rest). expandSource lb pol ((src # rest) ! k) nodes = Some (Inr ((x # ips) ! k))) \<and>
        srcIPs' = srcIPs @ concat (x # ips)"
      by simp
    with da show ?thesis by blast
  qed
qed

lemma synthesized_pass:
  assumes "CompileFilterRules_acl lb pol nodes
             \<lparr>Action = a, Protocol = [], Sources = [autogroupSelf], Destinations = newDst\<rparr> s =
             Some (Inr (r, s'))"
  shows "\<exists>selfIPs selfPorts.
           expandSource lb pol autogroupSelf nodes = Some (Inr selfIPs) \<and>
           CompileFilterRules_destinations lb pol nodes
             \<lparr>Action = a, Protocol = [], Sources = [autogroupSelf], Destinations = newDst\<rparr>
             False newDst [] = Some (Inr selfPorts) \<and>
           r = \<lparr>SrcIPs = selfIPs, DstPorts = selfPorts, IPProto = []\<rparr>"
proof -
  have sp: "splitSelf acl' autogroupSelf d s = (autogroupSelf, d, s)" for acl' d
    using not_member_self by (simp add: splitSelf_def)
  have pp: "parseProtocol [] = Inr ([], False)" by (simp add: parseProtocol_def)
  from acl_pass_parts [OF assms] show ?thesis
    by (auto simp: sp pp split: option.splits sum.splits)
qed

text \<open>
  A pass does not look at the rule list it is given: it appends to it. So a pass can be
  read on the empty list, the loop fails with the error of the first pass that fails,
  and it returns a rule list when every pass succeeds.
\<close>

lemma splitSelf_acls:
  "splitSelf acl src d acls =
     (case splitSelf acl src d [] of (s', d', ex) \<Rightarrow> (s', d', acls @ ex))"
  by (simp add: splitSelf_def Let_def)

lemma sources_acls_indep:
  "CompileFilterRules_sources lb pol nodes acl srcs d acls ips =
     (case CompileFilterRules_sources lb pol nodes acl srcs d [] ips of
        None \<Rightarrow> None
      | Some (Inl e) \<Rightarrow> Some (Inl e)
      | Some (Inr (d', ex, ips')) \<Rightarrow> Some (Inr (d', acls @ ex, ips')))"
proof (induction srcs arbitrary: d acls ips)
  case Nil
  then show ?case by simp
next
  case (Cons src rest)
  obtain s' d' ex0 where sp: "splitSelf acl src d [] = (s', d', ex0)"
    by (cases "splitSelf acl src d []") auto
  then have sp': "splitSelf acl src d acls = (s', d', acls @ ex0)"
    by (subst splitSelf_acls) simp
  show ?case
  proof (cases "expandSource lb pol s' nodes")
    case None
    with sp sp' show ?thesis by simp
  next
    case (Some res)
    show ?thesis
    proof (cases res)
      case (Inl e)
      with Some sp sp' show ?thesis by simp
    next
      case (Inr x)
      have l: "CompileFilterRules_sources lb pol nodes acl (src # rest) d acls ips =
               CompileFilterRules_sources lb pol nodes acl rest d' (acls @ ex0) (ips @ x)"
        using Some Inr sp' by simp
      have r: "CompileFilterRules_sources lb pol nodes acl (src # rest) d [] ips =
               CompileFilterRules_sources lb pol nodes acl rest d' ex0 (ips @ x)"
        using Some Inr sp by simp
      have A: "CompileFilterRules_sources lb pol nodes acl rest d' (acls @ ex0) (ips @ x) =
          (case CompileFilterRules_sources lb pol nodes acl rest d' [] (ips @ x) of
             None \<Rightarrow> None
           | Some (Inl e) \<Rightarrow> Some (Inl e)
           | Some (Inr (d'', ex, ips')) \<Rightarrow> Some (Inr (d'', (acls @ ex0) @ ex, ips')))"
        by (rule Cons.IH)
      have B: "CompileFilterRules_sources lb pol nodes acl rest d' ex0 (ips @ x) =
          (case CompileFilterRules_sources lb pol nodes acl rest d' [] (ips @ x) of
             None \<Rightarrow> None
           | Some (Inl e) \<Rightarrow> Some (Inl e)
           | Some (Inr (d'', ex, ips')) \<Rightarrow> Some (Inr (d'', ex0 @ ex, ips')))"
        by (rule Cons.IH)
      show ?thesis
        unfolding l r A B by (auto split: option.splits sum.splits)
    qed
  qed
qed

lemma acl_indep:
  "CompileFilterRules_acl lb pol nodes acl acls =
     (case CompileFilterRules_acl lb pol nodes acl [] of
        None \<Rightarrow> None
      | Some (Inl e) \<Rightarrow> Some (Inl e)
      | Some (Inr (r, ex)) \<Rightarrow> Some (Inr (r, acls @ ex)))"
  unfolding CompileFilterRules_acl_def
  by (subst sources_acls_indep) (auto split: option.splits sum.splits prod.splits)

lemma loop_pass_fails:
  assumes "index < length acls"
    and "CompileFilterRules_acl lb pol nodes (acls ! index) [] = Some (Inl e)"
  shows "CompileFilterRules_loop lb pol nodes acls index rules = Some (Inl e)"
  using assms
  by (subst CompileFilterRules_loop.simps, subst acl_indep) simp

lemma loop_pass_step:
  assumes "index < length acls"
    and "CompileFilterRules_acl lb pol nodes (acls ! index) [] = Some (Inr (r, ex))"
  shows "CompileFilterRules_loop lb pol nodes acls index rules =
         CompileFilterRules_loop lb pol nodes (acls @ ex) (index + 1) (rules @ [r])"
  using assms
  by (subst CompileFilterRules_loop.simps, subst acl_indep) simp

lemma loop_skip:
  assumes "index \<le> i" and "i \<le> length acls"
    and "\<forall>k. index \<le> k \<and> k < i \<longrightarrow>
           (\<exists>x. CompileFilterRules_acl lb pol nodes (acls ! k) [] = Some (Inr x))"
  shows "\<exists>acls' rules'.
           CompileFilterRules_loop lb pol nodes acls index rules =
           CompileFilterRules_loop lb pol nodes acls' i rules' \<and>
           take (length acls) acls' = acls"
  using assms
proof (induction "i - index" arbitrary: index acls rules)
  case 0
  then have "index = i" by simp
  then show ?case by (intro exI [of _ acls] exI [of _ rules]) simp
next
  case (Suc n)
  then have lt: "index < i" and lt': "index < length acls" by simp_all
  from Suc.prems(3) lt obtain r ex where
    pass: "CompileFilterRules_acl lb pol nodes (acls ! index) [] = Some (Inr (r, ex))"
    by (metis order_refl surj_pair)
  note step = loop_pass_step [OF lt' pass, of rules]
  have n: "n = i - (index + 1)" using Suc.hyps(2) by simp
  have ks: "\<forall>k. index + 1 \<le> k \<and> k < i \<longrightarrow>
           (\<exists>x. CompileFilterRules_acl lb pol nodes ((acls @ ex) ! k) [] = Some (Inr x))"
    using Suc.prems(2,3) by (auto simp: nth_append)
  from Suc.hyps(1) [OF n _ _ ks, of "rules @ [r]"] lt Suc.prems(2)
  obtain acls' rules' where
    "CompileFilterRules_loop lb pol nodes (acls @ ex) (index + 1) (rules @ [r]) =
     CompileFilterRules_loop lb pol nodes acls' i rules'"
    and t: "take (length (acls @ ex)) acls' = acls @ ex"
    by auto
  moreover from t have "take (length acls) acls' = acls"
    by (metis append_eq_conv_conj take_take length_append le_add1 min.absorb1)
  ultimately show ?case using step by auto
qed

lemma compile_first_failure:
  assumes "i < length (ACLs pol)"
    and "\<forall>k<i. \<exists>x. CompileFilterRules_acl lb pol nodes (ACLs pol ! k) [] = Some (Inr x)"
    and "CompileFilterRules_acl lb pol nodes (ACLs pol ! i) [] = Some (Inl e)"
  shows "CompileFilterRules lb (Some pol) nodes = Some (Inl e)"
proof -
  from assms(1,2) loop_skip [of 0 i "ACLs pol" lb pol nodes "[]"]
  obtain acls' rules' where
    eq: "CompileFilterRules_loop lb pol nodes (ACLs pol) 0 [] =
         CompileFilterRules_loop lb pol nodes acls' i rules'"
    and t: "take (length (ACLs pol)) acls' = ACLs pol"
    by auto
  from t assms(1) have i: "i < length acls'" "acls' ! i = ACLs pol ! i"
    by (metis length_take min_less_iff_conj, metis nth_take)
  from loop_pass_fails [of i acls' lb pol nodes e rules'] i assms(3) eq
  show ?thesis by (simp add: CompileFilterRules_def)
qed

lemma destinations_append:
  "CompileFilterRules_destinations lb pol nodes acl isWild (pre @ rest) acc =
     (case CompileFilterRules_destinations lb pol nodes acl isWild pre acc of
        None \<Rightarrow> None
      | Some (Inl e) \<Rightarrow> Some (Inl e)
      | Some (Inr dp) \<Rightarrow> CompileFilterRules_destinations lb pol nodes acl isWild rest dp)"
  by (induction pre arbitrary: acc) (auto split: sum.splits option.splits prod.splits)

lemma loop_total:
  assumes "\<forall>k. index \<le> k \<and> k < length acls \<longrightarrow>
             (\<exists>r ex. CompileFilterRules_acl lb pol nodes (acls ! k) [] = Some (Inr (r, ex)) \<and>
                (\<forall>s\<in>set ex. \<exists>x. CompileFilterRules_acl lb pol nodes s [] = Some (Inr x)))"
  shows "\<exists>out. CompileFilterRules_loop lb pol nodes acls index rules = Some (Inr out)"
  using assms
proof (induction lb pol nodes acls index rules rule: CompileFilterRules_loop.induct)
  case (1 lb pol nodes acls index rules)
  show ?case
  proof (cases "index < length acls")
    case False
    then show ?thesis by (subst CompileFilterRules_loop.simps) simp
  next
    case lt: True
    with "1.prems" obtain r ex where
      pass0: "CompileFilterRules_acl lb pol nodes (acls ! index) [] = Some (Inr (r, ex))"
      and exs: "\<forall>s\<in>set ex. \<exists>x. CompileFilterRules_acl lb pol nodes s [] = Some (Inr x)"
      by (meson order_refl)
    then have pass: "CompileFilterRules_acl lb pol nodes (acls ! index) acls =
                       Some (Inr (r, acls @ ex))"
      by (subst acl_indep) simp
    have q: "\<exists>r' ex'. CompileFilterRules_acl lb pol nodes s [] = Some (Inr (r', ex')) \<and>
               (\<forall>t\<in>set ex'. \<exists>x. CompileFilterRules_acl lb pol nodes t [] = Some (Inr x))"
      if "s \<in> set ex" for s
    proof -
      from acl_acls [OF pass0] that have src: "Sources s = [autogroupSelf]" by auto
      from exs that obtain r' ex' where
        p: "CompileFilterRules_acl lb pol nodes s [] = Some (Inr (r', ex'))" by (metis surj_pair)
      from acl_acls [OF p] src not_member_self have "ex' = []"
        by (auto simp: hasMemberSource_def)
      with p show ?thesis by auto
    qed
    have all: "\<forall>k. index + 1 \<le> k \<and> k < length (acls @ ex) \<longrightarrow>
                 (\<exists>r ex'. CompileFilterRules_acl lb pol nodes ((acls @ ex) ! k) [] =
                    Some (Inr (r, ex')) \<and>
                    (\<forall>s\<in>set ex'. \<exists>x. CompileFilterRules_acl lb pol nodes s [] = Some (Inr x)))"
    proof (intro allI impI)
      fix k
      assume k: "index + 1 \<le> k \<and> k < length (acls @ ex)"
      show "\<exists>r ex'. CompileFilterRules_acl lb pol nodes ((acls @ ex) ! k) [] =
                    Some (Inr (r, ex')) \<and>
                    (\<forall>s\<in>set ex'. \<exists>x. CompileFilterRules_acl lb pol nodes s [] = Some (Inr x))"
      proof (cases "k < length acls")
        case True
        with k "1.prems" show ?thesis by (simp add: nth_append)
      next
        case False
        with k have "(acls @ ex) ! k \<in> set ex" by (auto simp: nth_append)
        then show ?thesis by (rule q)
      qed
    qed
    from "1.IH" [OF lt pass refl refl all] obtain out where
      "CompileFilterRules_loop lb pol nodes (acls @ ex) (index + 1) (rules @ [r]) = Some (Inr out)"
      by blast
    with lt pass show ?thesis
      by (subst CompileFilterRules_loop.simps) simp
  qed
qed

lemma acl_compiles_any:
  assumes "CompileFilterRules_acl lb pol nodes acl s = Some (Inr x)"
  shows "\<exists>r ex. CompileFilterRules_acl lb pol nodes acl [] = Some (Inr (r, ex)) \<and> x = (r, s @ ex)"
  using assms acl_indep [of lb pol nodes acl s]
  by (auto split: option.splits sum.splits prod.splits)

lemma acl_fails_any:
  assumes "CompileFilterRules_acl lb pol nodes acl s = Some (Inl e)"
  shows "CompileFilterRules_acl lb pol nodes acl [] = Some (Inl e)"
  using assms acl_indep [of lb pol nodes acl s]
  by (auto split: option.splits sum.splits prod.splits)

lemma compile_reports_first_failure:
  assumes "i < length (ACLs pol)"
    and "\<forall>k<i. \<exists>s x. CompileFilterRules_acl lb pol nodes (ACLs pol ! k) s = Some (Inr x)"
    and "CompileFilterRules_acl lb pol nodes (ACLs pol ! i) s = Some (Inl e)"
  shows "CompileFilterRules lb (Some pol) nodes = Some (Inl e)"
proof (rule compile_first_failure [OF assms(1)])
  show "\<forall>k<i. \<exists>x. CompileFilterRules_acl lb pol nodes (ACLs pol ! k) [] = Some (Inr x)"
    using assms(2) acl_compiles_any by blast
  show "CompileFilterRules_acl lb pol nodes (ACLs pol ! i) [] = Some (Inl e)"
    using assms(3) by (rule acl_fails_any)
qed

lemma pass_fails_at_destination:
  assumes "Action acl = ''accept''"
    and "CompileFilterRules_sources lb pol nodes acl (Sources acl) (Destinations acl) s [] =
           Some (Inr (pre @ dest # post, s', srcIPs))"
    and "parseProtocol (Protocol acl) = Inr (protocols, isWild)"
    and "CompileFilterRules_destinations lb pol nodes acl isWild pre [] = Some (Inr dp)"
    and "CompileFilterRules_destinations lb pol nodes acl isWild (dest # post) dp = Some (Inl e)"
  shows "CompileFilterRules_acl lb pol nodes acl s = Some (Inl e)"
  using assms
  by (simp add: CompileFilterRules_acl_def destinations_append
           del: CompileFilterRules_destinations.simps)

lemma loop_fails_here:
  assumes "index < length acls"
    and "CompileFilterRules_acl lb pol nodes (acls ! index) acls = Some (Inl e)"
  shows "CompileFilterRules_loop lb pol nodes acls index rules = Some (Inl e)"
  using assms by (subst CompileFilterRules_loop.simps) simp

text \<open>
  The passes, computed from the expansions of the sources: the converse of
  \<open>sources_plain\<close>, \<open>sources_mixed\<close> and \<open>synthesized_pass\<close>.
\<close>

lemma sources_plain_eval:
  assumes "list_all2 (\<lambda>s ip. expandSource lb pol s nodes = Some (Inr ip)) srcs ips"
    and "filter (\<lambda>dst. HasPrefix dst autogroupSelf) d = []" and "d \<noteq> []"
  shows "CompileFilterRules_sources lb pol nodes acl srcs d acls ips0 =
           Some (Inr (d, acls, ips0 @ concat ips))"
  using assms(1)
proof (induction srcs ips arbitrary: ips0 rule: list_all2_induct)
  case Nil
  then show ?case by simp
next
  case (Cons src rest x xs)
  from assms(2) have "filter (\<lambda>dst. \<not> HasPrefix dst autogroupSelf) d = d"
    by (simp add: filter_empty_conv)
  with assms(2,3) have sp: "splitSelf acl src d acls = (src, d, acls)"
    by (simp add: splitSelf_def Let_def)
  show ?case using Cons sp by simp
qed

lemma sources_mixed_eval:
  assumes "list_all2 (\<lambda>s ip. expandSource lb pol s nodes = Some (Inr ip)) srcs ips"
    and "list_ex (\<lambda>src. HasPrefix src autogroupMember) srcs"
    and "filter (\<lambda>dst. HasPrefix dst autogroupSelf) d \<noteq> []"
    and "filter (\<lambda>dst. \<not> HasPrefix dst autogroupSelf) d \<noteq> []"
  shows "CompileFilterRules_sources lb pol nodes acl srcs d acls ips0 =
           Some (Inr (filter (\<lambda>dst. \<not> HasPrefix dst autogroupSelf) d,
                      acls @ [\<lparr>Action = Action acl, Protocol = [], Sources = [autogroupSelf],
                               Destinations = filter (\<lambda>dst. HasPrefix dst autogroupSelf) d\<rparr>],
                      ips0 @ concat ips))"
  using assms(1,2)
proof (induction srcs ips arbitrary: ips0 rule: list_all2_induct)
  case Nil
  then show ?case by simp
next
  case (Cons src rest x xs)
  let ?old = "filter (\<lambda>dst. \<not> HasPrefix dst autogroupSelf) d"
  let ?new = "filter (\<lambda>dst. HasPrefix dst autogroupSelf) d"
  let ?syn = "\<lparr>Action = Action acl, Protocol = [], Sources = [autogroupSelf], Destinations = ?new\<rparr>"
  show ?case
  proof (cases "HasPrefix src autogroupMember")
    case True
    with assms(3,4) have sp: "splitSelf acl src d acls = (src, ?old, acls @ [?syn])"
      by (simp add: splitSelf_def Let_def)
    have ns: "filter (\<lambda>dst. HasPrefix dst autogroupSelf) ?old = []"
      by (simp add: filter_empty_conv)
    from sources_plain_eval [OF Cons.hyps(2) ns assms(4), of acl "acls @ [?syn]" "ips0 @ x"]
      Cons.hyps(1) sp
    show ?thesis by simp
  next
    case False
    then have sp: "splitSelf acl src d acls = (src, d, acls)"
      by (simp add: splitSelf_def)
    from Cons.prems False have "list_ex (\<lambda>src. HasPrefix src autogroupMember) rest" by simp
    from Cons.IH [OF this, of "ips0 @ x"] Cons.hyps(1) sp show ?thesis by simp
  qed
qed

lemma mixed_pass_eval:
  assumes "Action acl = ''accept''"
    and "list_ex (\<lambda>src. HasPrefix src autogroupMember) (Sources acl)"
    and "filter (\<lambda>dst. HasPrefix dst autogroupSelf) (Destinations acl) \<noteq> []"
    and "filter (\<lambda>dst. \<not> HasPrefix dst autogroupSelf) (Destinations acl) \<noteq> []"
    and "list_all2 (\<lambda>s ip. expandSource lb pol s nodes = Some (Inr ip)) (Sources acl) ips"
    and "parseProtocol (Protocol acl) = Inr (protocols, isWild)"
    and "CompileFilterRules_destinations lb pol nodes acl isWild
           (filter (\<lambda>dst. \<not> HasPrefix dst autogroupSelf) (Destinations acl)) [] =
           Some (Inr destPorts)"
  shows "CompileFilterRules_acl lb pol nodes acl [] =
           Some (Inr (\<lparr>SrcIPs = concat ips, DstPorts = destPorts, IPProto = protocols\<rparr>,
                      [\<lparr>Action = Action acl, Protocol = [], Sources = [autogroupSelf],
                        Destinations =
                          filter (\<lambda>dst. HasPrefix dst autogroupSelf) (Destinations acl)\<rparr>]))"
  using sources_mixed_eval [OF assms(5,2,3,4), of acl "[]" "[]"] assms(1,6,7)
  by (simp add: CompileFilterRules_acl_def)

lemma synthesized_pass_eval:
  assumes "expandSource lb pol autogroupSelf nodes = Some (Inr selfIPs)"
    and "CompileFilterRules_destinations lb pol nodes
           \<lparr>Action = ''accept'', Protocol = [], Sources = [autogroupSelf], Destinations = newDst\<rparr>
           False newDst [] = Some (Inr selfPorts)"
  shows "CompileFilterRules_acl lb pol nodes
           \<lparr>Action = ''accept'', Protocol = [], Sources = [autogroupSelf], Destinations = newDst\<rparr> acls =
           Some (Inr (\<lparr>SrcIPs = selfIPs, DstPorts = selfPorts, IPProto = []\<rparr>, acls))"
proof -
  have sp: "splitSelf acl' autogroupSelf d acls = (autogroupSelf, d, acls)" for acl' d
    using not_member_self by (simp add: splitSelf_def)
  have pp: "parseProtocol [] = Inr ([], False)" by (simp add: parseProtocol_def)
  show ?thesis
    using assms by (simp add: CompileFilterRules_acl_def sp pp)
qed


subsection \<open>The examples, evaluated\<close>

lemma allIPs_UNIV: "allIPs = UNIV"
proof -
  have "a \<in> allIPs" for a
    by (cases a) (simp_all add: allIPs_def AddPrefix_def)
  then show ?thesis by blast
qed

lemma testLib_prefixes:
  "map (PrefixString testLib) (Prefixes testLib allIPs) = [''0.0.0.0/0'', ''::/0'']"
  "map (PrefixString testLib) (Prefixes testLib {IPv4 0x64400001}) = [''100.64.0.1/32'']"
proof -
  have "IPv6 0 \<notin> {IPv4 0x64400001}" by simp
  then have n: "{IPv4 0x64400001} \<noteq> (UNIV :: Addr set)" by blast
  show "map (PrefixString testLib) (Prefixes testLib allIPs) = [''0.0.0.0/0'', ''::/0'']"
    by (simp add: allIPs_UNIV testLib_def)
  show "map (PrefixString testLib) (Prefixes testLib {IPv4 0x64400001}) = [''100.64.0.1/32'']"
    using n by (simp add: testLib_def)
qed

lemma ExpandAlias_wildcard: "ExpandAlias testLib pol nodes ''*'' = Some (Inr allIPs)"
  by (subst ExpandAlias.simps) (simp add: isWildcard_def testLib_def)

lemma parseDestination_examples:
  "parseDestination lb ''*:22'' = Inr (''*'', ''22'')"
  "parseDestination lb ''*:*'' = Inr (''*'', ''*'')"
  "parseDestination lb ''autogroup:self:22'' = Inr (''autogroup:self'', ''22'')"
  "parseDestination lb ''autogroup:self:*'' = Inr (''autogroup:self'', ''*'')"
  by (simp_all add: parseDestination_def)

lemma aliceNode_set: "appendNodes [aliceNode] {} = {IPv4 0x64400001}"
  by (simp add: appendNodes_def AppendToIPSet_def IPs_def aliceNode_def Add_def)

lemma ExpandAlias_member_alice:
  assumes "TagOwners pol = []"
  shows "ExpandAlias testLib pol [aliceNode] ''autogroup:member'' = Some (Inr {IPv4 0x64400001})"
proof -
  have t: "TagsOfNode testLib pol (Some aliceNode) = ([], [''tag:web''])"
    using assms
    by (simp add: TagsOfNode_def validTag_def expandOwnersFromTag_def aliceNode_def noTagErr_def)
  have f: "ForcedTags aliceNode = []" by (simp add: aliceNode_def)
  show ?thesis
    by (subst ExpandAlias.simps)
       (simp add: isWildcard_def isGroup_def isTag_def isAutoGroup_def HasPrefix_def
          autogroupPrefix_def expandAutoGroup_def autogroupInternet_def autogroupSelf_def
          autogroupMember_def t f aliceNode_set)
qed

lemma ExpandAlias_self_alice:
  "ExpandAlias testLib pol [aliceNode] ''autogroup:self'' = Some (Inr {IPv4 0x64400001})"
  by (subst ExpandAlias.simps)
     (simp add: isWildcard_def isGroup_def isTag_def isAutoGroup_def HasPrefix_def
        autogroupPrefix_def expandAutoGroup_def autogroupInternet_def autogroupSelf_def
        aliceNode_set)

lemma expandSource_examples:
  "expandSource testLib pol ''*'' nodes = Some (Inr [''0.0.0.0/0'', ''::/0''])"
  "TagOwners pol = [] \<Longrightarrow>
     expandSource testLib pol ''autogroup:member'' [aliceNode] = Some (Inr [''100.64.0.1/32''])"
  "expandSource testLib pol autogroupSelf [aliceNode] = Some (Inr [''100.64.0.1/32''])"
  using ExpandAlias_self_alice [of pol]
  by (simp_all add: expandSource_def ExpandAlias_wildcard ExpandAlias_member_alice
      testLib_prefixes autogroupSelf_def)

lemma expandPorts_examples:
  "expandPorts ''*'' w = Inr [\<lparr>First = 0, Last = 65535\<rparr>]"
  "expandPorts ''22'' False = Inr [\<lparr>First = 22, Last = 22\<rparr>]"
  by (simp_all add: expandPorts_def isWildcard_def portRangeBegin_def portRangeEnd_def
      ParseUint16_def isDigit_def digitsValue_def)

lemma parseProtocol_examples:
  "parseProtocol ''icmp'' = Inr ([protocolICMP, protocolIPv6ICMP], True)"
  "parseProtocol [] = Inr ([], False)"
  by (simp_all add: parseProtocol_def)

lemma wildcard_no_misuse: "\<not> autogroupSelfMisuse srcs ''*''"
  by (simp add: autogroupSelfMisuse_def HasPrefix_def autogroupSelf_def)

lemma destinations_all:
  "CompileFilterRules_destinations testLib pol nodes acl w [''*:*''] [] =
     Some (Inr [\<lparr>IP = ''0.0.0.0/0'', Ports = \<lparr>First = 0, Last = 65535\<rparr>\<rparr>,
                \<lparr>IP = ''::/0'', Ports = \<lparr>First = 0, Last = 65535\<rparr>\<rparr>])"
proof -
  have p: "Prefixes testLib allIPs = [Prefix (IPv4 0) 0, Prefix (IPv6 0) 0]"
    by (simp add: allIPs_UNIV testLib_def)
  have s: "PrefixString testLib (Prefix (IPv4 0) 0) = ''0.0.0.0/0''"
    "PrefixString testLib (Prefix (IPv6 0) 0) = ''::/0''"
    by (simp_all add: testLib_def)
  show ?thesis
    by (simp add: parseDestination_examples wildcard_no_misuse ExpandAlias_wildcard
        expandPorts_examples p s)
qed

lemma destinations_self_alice:
  "CompileFilterRules_destinations testLib pol [aliceNode]
     \<lparr>Action = a, Protocol = [], Sources = [autogroupSelf],
      Destinations = [''autogroup:self:22'']\<rparr> False [''autogroup:self:22''] [] =
     Some (Inr [\<lparr>IP = ''100.64.0.1/32'', Ports = \<lparr>First = 22, Last = 22\<rparr>\<rparr>])"
proof -
  have "IPv6 0 \<notin> {IPv4 0x64400001}" by simp
  then have n: "{IPv4 0x64400001} \<noteq> (UNIV :: Addr set)" by blast
  then have p: "Prefixes testLib {IPv4 0x64400001} = [Prefix (IPv4 0x64400001) 32]"
    by (simp add: testLib_def)
  have s: "PrefixString testLib (Prefix (IPv4 0x64400001) 32) = ''100.64.0.1/32''"
    by (simp add: testLib_def)
  have nm: "\<not> autogroupSelfMisuse [autogroupSelf] ''autogroup:self''"
    by (simp add: autogroupSelfMisuse_def)
  show ?thesis
    using nm
    by (simp add: parseDestination_examples ExpandAlias_self_alice expandPorts_examples p s)
qed

lemma allowACL_pass:
  "CompileFilterRules_acl testLib pol nodes allowACL [] = Some (Inr (allowRule, []))"
proof -
  have f: "Action allowACL = ''accept''" "Protocol allowACL = []" "Sources allowACL = [''*'']"
    "Destinations allowACL = [''*:*'']"
    by (simp_all add: allowACL_def)
  have sp: "splitSelf allowACL ''*'' d acls = (''*'', d, acls)" for d acls
    by (simp add: splitSelf_def HasPrefix_def autogroupMember_def)
  show ?thesis
    by (simp add: CompileFilterRules_acl_def f sp expandSource_examples parseProtocol_examples
          destinations_all allowRule_def del: CompileFilterRules_destinations.simps)
qed

lemma splitACL_parts:
  "Action splitACL = ''accept''"
  "list_ex (\<lambda>src. HasPrefix src autogroupMember) (Sources splitACL)"
  "[''autogroup:self:22''] = filter (\<lambda>dst. HasPrefix dst autogroupSelf) (Destinations splitACL)"
  "[''*:*''] = filter (\<lambda>dst. \<not> HasPrefix dst autogroupSelf) (Destinations splitACL)"
  by (simp_all add: splitACL_def HasPrefix_def autogroupMember_def autogroupSelf_def)

lemma splitACL_pass:
  assumes "TagOwners pol = []"
  shows "CompileFilterRules_acl testLib pol [aliceNode] splitACL [] =
     Some (Inr (restrictedRule,
                [\<lparr>Action = ''accept'', Protocol = [], Sources = [autogroupSelf],
                  Destinations = [''autogroup:self:22'']\<rparr>]))"
proof -
  have e: "list_all2 (\<lambda>s ip. expandSource testLib pol s [aliceNode] = Some (Inr ip))
             (Sources splitACL) [[''100.64.0.1/32'']]"
    using assms by (simp add: splitACL_def expandSource_examples)
  have p: "parseProtocol (Protocol splitACL) = Inr ([protocolICMP, protocolIPv6ICMP], True)"
    by (simp add: splitACL_def parseProtocol_examples)
  have d: "CompileFilterRules_destinations testLib pol [aliceNode] splitACL True
             (filter (\<lambda>dst. \<not> HasPrefix dst autogroupSelf) (Destinations splitACL)) [] =
           Some (Inr [\<lparr>IP = ''0.0.0.0/0'', Ports = \<lparr>First = 0, Last = 65535\<rparr>\<rparr>,
                      \<lparr>IP = ''::/0'', Ports = \<lparr>First = 0, Last = 65535\<rparr>\<rparr>])"
    unfolding splitACL_parts(4) [symmetric] by (rule destinations_all)
  have n: "filter (\<lambda>dst. HasPrefix dst autogroupSelf) (Destinations splitACL) \<noteq> []"
    "filter (\<lambda>dst. \<not> HasPrefix dst autogroupSelf) (Destinations splitACL) \<noteq> []"
    unfolding splitACL_parts(3,4) [symmetric] by simp_all
  from mixed_pass_eval [OF splitACL_parts(1,2) n e p d]
  show ?thesis
    unfolding splitACL_parts(3) [symmetric] splitACL_parts(1) by (simp add: restrictedRule_def)
qed

lemma synthesized_pass_alice:
  "CompileFilterRules_acl testLib pol [aliceNode]
     \<lparr>Action = ''accept'', Protocol = [], Sources = [autogroupSelf],
      Destinations = [''autogroup:self:22'']\<rparr> [] = Some (Inr (selfRule, []))"
  unfolding selfRule_def
  by (rule synthesized_pass_eval) (simp_all only: expandSource_examples destinations_self_alice)

lemma splitPolicy_compiles:
  "CompileFilterRules testLib (Some splitPolicy) [aliceNode] =
     Some (Inr [allowRule, restrictedRule, selfRule])"
proof -
  have a: "ACLs splitPolicy = [allowACL, splitACL]" "TagOwners splitPolicy = []"
    by (simp_all add: splitPolicy_def)
  show ?thesis
    unfolding CompileFilterRules_def a option.case
    by (subst loop_pass_step [where r = allowRule and ex = "[]"], simp, simp add: allowACL_pass,
        subst loop_pass_step [where r = restrictedRule], simp, simp add: splitACL_pass a,
        subst loop_pass_step [where r = selfRule and ex = "[]"], simp,
        simp add: synthesized_pass_alice,
        subst CompileFilterRules_loop.simps, simp)
qed

text \<open>
  A rule with two sources, one of them \<^verbatim>\<open>autogroup:member\<close>, and a destination
  \<^verbatim>\<open>autogroup:self:22\<close> beside \<^verbatim>\<open>*:*\<close> compiles: the split of lines 226-233 takes the
  self destination off the rule before line 255 tests the sources.
\<close>

lemma twoSourceACL_pass:
  assumes "TagOwners pol = []"
  shows "CompileFilterRules_acl testLib pol [aliceNode] twoSourceACL [] =
     Some (Inr (\<lparr>SrcIPs = [''100.64.0.1/32'', ''0.0.0.0/0'', ''::/0''],
                 DstPorts = [\<lparr>IP = ''0.0.0.0/0'', Ports = \<lparr>First = 0, Last = 65535\<rparr>\<rparr>,
                             \<lparr>IP = ''::/0'', Ports = \<lparr>First = 0, Last = 65535\<rparr>\<rparr>],
                 IPProto = []\<rparr>,
                [\<lparr>Action = ''accept'', Protocol = [], Sources = [autogroupSelf],
                  Destinations = [''autogroup:self:22'']\<rparr>]))"
proof -
  have f: "Action twoSourceACL = ''accept''"
    "list_ex (\<lambda>src. HasPrefix src autogroupMember) (Sources twoSourceACL)"
    "[''autogroup:self:22''] =
       filter (\<lambda>dst. HasPrefix dst autogroupSelf) (Destinations twoSourceACL)"
    "[''*:*''] = filter (\<lambda>dst. \<not> HasPrefix dst autogroupSelf) (Destinations twoSourceACL)"
    by (simp_all add: twoSourceACL_def HasPrefix_def autogroupMember_def autogroupSelf_def)
  have e: "list_all2 (\<lambda>s ip. expandSource testLib pol s [aliceNode] = Some (Inr ip))
             (Sources twoSourceACL) [[''100.64.0.1/32''], [''0.0.0.0/0'', ''::/0'']]"
    using assms by (simp add: twoSourceACL_def expandSource_examples)
  have p: "parseProtocol (Protocol twoSourceACL) = Inr ([], False)"
    by (simp add: twoSourceACL_def parseProtocol_examples)
  have d: "CompileFilterRules_destinations testLib pol [aliceNode] twoSourceACL False
             (filter (\<lambda>dst. \<not> HasPrefix dst autogroupSelf) (Destinations twoSourceACL)) [] =
           Some (Inr [\<lparr>IP = ''0.0.0.0/0'', Ports = \<lparr>First = 0, Last = 65535\<rparr>\<rparr>,
                      \<lparr>IP = ''::/0'', Ports = \<lparr>First = 0, Last = 65535\<rparr>\<rparr>])"
    unfolding f(4) [symmetric] by (rule destinations_all)
  have n: "filter (\<lambda>dst. HasPrefix dst autogroupSelf) (Destinations twoSourceACL) \<noteq> []"
    "filter (\<lambda>dst. \<not> HasPrefix dst autogroupSelf) (Destinations twoSourceACL) \<noteq> []"
    unfolding f(3,4) [symmetric] by simp_all
  from mixed_pass_eval [OF f(1,2) n e p d]
  show ?thesis
    unfolding f(3) [symmetric] f(1) by simp
qed

lemma twoSourcePolicy_compiles:
  "length (Sources twoSourceACL) = 2 \<and>
   parseDestination testLib (Destinations twoSourceACL ! 0) = Inr (''autogroup:self'', ''22'') \<and>
   CompileFilterRules testLib (Some twoSourcePolicy) [aliceNode] =
     Some (Inr [\<lparr>SrcIPs = [''100.64.0.1/32'', ''0.0.0.0/0'', ''::/0''],
                 DstPorts = [\<lparr>IP = ''0.0.0.0/0'', Ports = \<lparr>First = 0, Last = 65535\<rparr>\<rparr>,
                             \<lparr>IP = ''::/0'', Ports = \<lparr>First = 0, Last = 65535\<rparr>\<rparr>],
                 IPProto = []\<rparr>,
                selfRule])"
proof -
  have a: "ACLs twoSourcePolicy = [twoSourceACL]" "TagOwners twoSourcePolicy = []"
    by (simp_all add: twoSourcePolicy_def)
  have "CompileFilterRules testLib (Some twoSourcePolicy) [aliceNode] =
     Some (Inr [\<lparr>SrcIPs = [''100.64.0.1/32'', ''0.0.0.0/0'', ''::/0''],
                 DstPorts = [\<lparr>IP = ''0.0.0.0/0'', Ports = \<lparr>First = 0, Last = 65535\<rparr>\<rparr>,
                             \<lparr>IP = ''::/0'', Ports = \<lparr>First = 0, Last = 65535\<rparr>\<rparr>],
                 IPProto = []\<rparr>,
                selfRule])"
    unfolding CompileFilterRules_def a option.case
    by (subst loop_pass_step, simp, simp add: twoSourceACL_pass a,
        subst loop_pass_step [where r = selfRule and ex = "[]"], simp,
        simp add: synthesized_pass_alice,
        subst CompileFilterRules_loop.simps, simp)
  then show ?thesis
    by (simp add: twoSourceACL_def parseDestination_examples)
qed

lemma unknown_group_source:
  assumes "Groups pol = []" and "Action acl = ''accept''"
    and "Sources acl = ''group:nope'' # rest"
  shows "CompileFilterRules_acl testLib pol nodes acl acls = Some (Inl unknownGroupError)"
proof -
  have sp: "splitSelf acl ''group:nope'' d acls = (''group:nope'', d, acls)" for d
    by (simp add: splitSelf_def HasPrefix_def autogroupMember_def)
  have "ExpandAlias testLib pol nodes ''group:nope'' =
          Some (Inl (Errorf ''group %v isn't registered. %w'' (Some ErrInvalidGroup)))"
    using assms(1)
    by (subst ExpandAlias.simps)
       (simp add: isWildcard_def isGroup_def HasPrefix_def expandIPsFromGroup_def
          expandUsersFromGroup_def)
  then have "expandSource testLib pol ''group:nope'' nodes =
          Some (Inl (Errorf ''group %v isn't registered. %w'' (Some ErrInvalidGroup)))"
    by (simp add: expandSource_def)
  with sp assms(2,3) show ?thesis
    by (simp add: CompileFilterRules_acl_def unknownGroupError_def)
qed

lemma unknown_group_policy:
  assumes "Groups pol = []" and "ACLs pol = [acl]" and "Action acl = ''accept''"
    and "Sources acl = ''group:nope'' # rest"
  shows "CompileFilterRules testLib (Some pol) nodes = Some (Inl unknownGroupError)"
  using unknown_group_source [OF assms(1,3,4), of nodes "[acl]"] assms(2)
  unfolding CompileFilterRules_def
  by (subst CompileFilterRules_loop.simps) simp

lemma icmpACL_sources:
  "CompileFilterRules_sources testLib pol nodes icmpACL (Sources icmpACL) (Destinations icmpACL)
     acls [] = Some (Inr ([] @ ''*:22'' # [], acls, [''0.0.0.0/0'', ''::/0'']))"
proof -
  have sp: "splitSelf icmpACL ''*'' d acls = (''*'', d, acls)" for d acls
    by (simp add: splitSelf_def HasPrefix_def autogroupMember_def)
  have f: "Sources icmpACL = [''*'']" "Destinations icmpACL = [''*:22'']"
    by (simp_all add: icmpACL_def)
  show ?thesis
    by (simp add: f sp expandSource_examples)
qed

lemma ExpandAlias_alice:
  assumes "TagOwners pol = []" and "Groups pol = []" and "Hosts pol = []"
  shows "ExpandAlias testLib pol [aliceNode] ''alice'' = Some (Inr {IPv4 0x64400001})"
  using assms
  by (subst ExpandAlias.simps)
     (simp add: isWildcard_def isGroup_def isTag_def isAutoGroup_def HasPrefix_def
        autogroupPrefix_def expandIPsFromUser_def filterNodesByUser_def
        excludeCorrectlyTaggedNodes_def excludeCorrectlyTaggedNodes_tags_def
        StringOrPrefixListContains_def
        aliceNode_set aliceNode_def testLib_def appendNodes_def AppendToIPSet_def IPs_def Add_def)

lemma selfACL_sources:
  assumes "TagOwners pol = []" and "Groups pol = []" and "Hosts pol = []"
  shows "CompileFilterRules_sources testLib pol [aliceNode] selfACL (Sources selfACL)
     (Destinations selfACL) acls [] =
     Some (Inr ([] @ ''autogroup:self:*'' # [], acls, [''100.64.0.1/32'']))"
proof -
  have sp: "splitSelf selfACL ''alice'' d acls = (''alice'', d, acls)" for d acls
    by (simp add: splitSelf_def HasPrefix_def autogroupMember_def)
  have "expandSource testLib pol ''alice'' [aliceNode] = Some (Inr [''100.64.0.1/32''])"
    by (simp add: expandSource_def ExpandAlias_alice [OF assms] testLib_prefixes)
  moreover have "Sources selfACL = [''alice'']" "Destinations selfACL = [''autogroup:self:*'']"
    by (simp_all add: selfACL_def)
  ultimately show ?thesis
    by (simp add: sp)
qed


subsection \<open>The split for autogroup:self\<close>

text \<open>
  Claim C3, as amended. Take an access rule with the action \<^verbatim>\<open>accept\<close>, a source that
  begins with \<^verbatim>\<open>autogroup:member\<close>, destinations \<open>newDst\<close> that begin with
  \<^verbatim>\<open>autogroup:self\<close> and destinations \<open>oldDst\<close> that do not, neither list empty, and let
  \<open>synthesized\<close> be the rule with the action of that rule, no protocol, the one source
  \<^verbatim>\<open>autogroup:self\<close> and the destinations \<open>newDst\<close>.

  \<^enum> Whenever the loop of \<^verbatim>\<open>CompileFilterRules\<close> stands at the rule, every source of the
    rule expands, its protocol parses and \<open>oldDst\<close> compiles, the pass appends to the
    output the original rule restricted to \<open>oldDst\<close> (its source IPs are the expansions
    of all the sources, its protocols those of the rule, its destinations those
    compiled from \<open>oldDst\<close>), appends \<open>synthesized\<close> to the rule list, and the loop goes
    on at the next index.
  \<^enum> Whenever the loop stands at \<open>synthesized\<close>, \<^verbatim>\<open>autogroup:self\<close> expands and \<open>newDst\<close>
    compiles, the pass appends to the output the rule whose source IPs are the
    expansion of \<^verbatim>\<open>autogroup:self\<close> and whose destinations are those compiled from
    \<open>newDst\<close>, with no protocol, and the loop goes on at the next index.
  \<^enum> If the pass over every rule of the policy succeeds, and the pass over every rule
    that such a pass appends, \<^verbatim>\<open>CompileFilterRules\<close> returns a rule list.
  \<^enum> Whenever \<^verbatim>\<open>CompileFilterRules\<close> returns a rule list and the rule is number \<open>i\<close> of
    the policy, entry \<open>i\<close> of the list is the restricted original rule of the first
    item, and an entry at an index past the rules of the policy is the compiled
    \<open>synthesized\<close> rule of the second item.
\<close>

theorem autogroup_self_split_rules:
  assumes "Action acl = ''accept''"
    and "list_ex (\<lambda>src. HasPrefix src autogroupMember) (Sources acl)"
    and "newDst = filter (\<lambda>dst. HasPrefix dst autogroupSelf) (Destinations acl)"
    and "oldDst = filter (\<lambda>dst. \<not> HasPrefix dst autogroupSelf) (Destinations acl)"
    and "newDst \<noteq> []" and "oldDst \<noteq> []"
    and "synthesized =
           \<lparr>Action = Action acl, Protocol = [], Sources = [autogroupSelf], Destinations = newDst\<rparr>"
  shows "(\<forall>acls index rules ips protocols isWild destPorts.
            index < length acls \<and> acls ! index = acl \<and>
            list_all2 (\<lambda>src ip. expandSource lb pol src nodes = Some (Inr ip)) (Sources acl) ips \<and>
            parseProtocol (Protocol acl) = Inr (protocols, isWild) \<and>
            CompileFilterRules_destinations lb pol nodes acl isWild oldDst [] =
              Some (Inr destPorts) \<longrightarrow>
            CompileFilterRules_loop lb pol nodes acls index rules =
            CompileFilterRules_loop lb pol nodes (acls @ [synthesized]) (index + 1)
              (rules @ [\<lparr>SrcIPs = concat ips, DstPorts = destPorts, IPProto = protocols\<rparr>]))
         \<and> (\<forall>acls index rules selfIPs selfPorts.
            index < length acls \<and> acls ! index = synthesized \<and>
            expandSource lb pol autogroupSelf nodes = Some (Inr selfIPs) \<and>
            CompileFilterRules_destinations lb pol nodes synthesized False newDst [] =
              Some (Inr selfPorts) \<longrightarrow>
            CompileFilterRules_loop lb pol nodes acls index rules =
            CompileFilterRules_loop lb pol nodes acls (index + 1)
              (rules @ [\<lparr>SrcIPs = selfIPs, DstPorts = selfPorts, IPProto = []\<rparr>]))
         \<and> ((\<forall>a\<in>set (ACLs pol).
               \<exists>r ex. CompileFilterRules_acl lb pol nodes a [] = Some (Inr (r, ex)) \<and>
                 (\<forall>s\<in>set ex. \<exists>x. CompileFilterRules_acl lb pol nodes s [] = Some (Inr x))) \<longrightarrow>
             (\<exists>rules. CompileFilterRules lb (Some pol) nodes = Some (Inr rules)))
         \<and> (\<forall>i rules.
            i < length (ACLs pol) \<and> ACLs pol ! i = acl \<and>
            CompileFilterRules lb (Some pol) nodes = Some (Inr rules) \<longrightarrow>
            (\<exists>ips protocols isWild destPorts j selfIPs selfPorts.
               list_all2 (\<lambda>src ip. expandSource lb pol src nodes = Some (Inr ip)) (Sources acl) ips \<and>
               parseProtocol (Protocol acl) = Inr (protocols, isWild) \<and>
               CompileFilterRules_destinations lb pol nodes acl isWild oldDst [] =
                 Some (Inr destPorts) \<and>
               rules ! i = \<lparr>SrcIPs = concat ips, DstPorts = destPorts, IPProto = protocols\<rparr> \<and>
               length (ACLs pol) \<le> j \<and> j < length rules \<and>
               expandSource lb pol autogroupSelf nodes = Some (Inr selfIPs) \<and>
               CompileFilterRules_destinations lb pol nodes synthesized False newDst [] =
                 Some (Inr selfPorts) \<and>
               rules ! j = \<lparr>SrcIPs = selfIPs, DstPorts = selfPorts, IPProto = []\<rparr>))"
proof -
  let ?syn = "\<lparr>Action = Action acl, Protocol = [], Sources = [autogroupSelf], Destinations = newDst\<rparr>"
  have c1: "\<forall>acls index rules ips protocols isWild destPorts.
            index < length acls \<and> acls ! index = acl \<and>
            list_all2 (\<lambda>src ip. expandSource lb pol src nodes = Some (Inr ip)) (Sources acl) ips \<and>
            parseProtocol (Protocol acl) = Inr (protocols, isWild) \<and>
            CompileFilterRules_destinations lb pol nodes acl isWild oldDst [] =
              Some (Inr destPorts) \<longrightarrow>
            CompileFilterRules_loop lb pol nodes acls index rules =
            CompileFilterRules_loop lb pol nodes (acls @ [synthesized]) (index + 1)
              (rules @ [\<lparr>SrcIPs = concat ips, DstPorts = destPorts, IPProto = protocols\<rparr>])"
  proof (intro allI impI)
    fix acls index rules ips protocols isWild destPorts
    assume h: "index < length acls \<and> acls ! index = acl \<and>
            list_all2 (\<lambda>src ip. expandSource lb pol src nodes = Some (Inr ip)) (Sources acl) ips \<and>
            parseProtocol (Protocol acl) = Inr (protocols, isWild) \<and>
            CompileFilterRules_destinations lb pol nodes acl isWild oldDst [] =
              Some (Inr destPorts)"
    then have e: "list_all2 (\<lambda>src ip. expandSource lb pol src nodes = Some (Inr ip)) (Sources acl) ips"
      and p: "parseProtocol (Protocol acl) = Inr (protocols, isWild)"
      and d: "CompileFilterRules_destinations lb pol nodes acl isWild
                (filter (\<lambda>dst. \<not> HasPrefix dst autogroupSelf) (Destinations acl)) [] =
              Some (Inr destPorts)"
      using assms(4) by simp_all
    from mixed_pass_eval [OF assms(1,2) _ _ e p d] assms(3-7)
    have "CompileFilterRules_acl lb pol nodes acl [] =
           Some (Inr (\<lparr>SrcIPs = concat ips, DstPorts = destPorts, IPProto = protocols\<rparr>,
                      [synthesized]))"
      by simp
    with h loop_pass_step [of index acls lb pol nodes _ "[synthesized]" rules]
    show "CompileFilterRules_loop lb pol nodes acls index rules =
            CompileFilterRules_loop lb pol nodes (acls @ [synthesized]) (index + 1)
              (rules @ [\<lparr>SrcIPs = concat ips, DstPorts = destPorts, IPProto = protocols\<rparr>])"
      by simp
  qed
  have c2: "\<forall>acls index rules selfIPs selfPorts.
            index < length acls \<and> acls ! index = synthesized \<and>
            expandSource lb pol autogroupSelf nodes = Some (Inr selfIPs) \<and>
            CompileFilterRules_destinations lb pol nodes synthesized False newDst [] =
              Some (Inr selfPorts) \<longrightarrow>
            CompileFilterRules_loop lb pol nodes acls index rules =
            CompileFilterRules_loop lb pol nodes acls (index + 1)
              (rules @ [\<lparr>SrcIPs = selfIPs, DstPorts = selfPorts, IPProto = []\<rparr>])"
  proof (intro allI impI)
    fix acls index rules selfIPs selfPorts
    assume h: "index < length acls \<and> acls ! index = synthesized \<and>
            expandSource lb pol autogroupSelf nodes = Some (Inr selfIPs) \<and>
            CompileFilterRules_destinations lb pol nodes synthesized False newDst [] =
              Some (Inr selfPorts)"
    have syn: "synthesized =
        \<lparr>Action = ''accept'', Protocol = [], Sources = [autogroupSelf], Destinations = newDst\<rparr>"
      using assms(1,7) by simp
    from h have "CompileFilterRules_acl lb pol nodes synthesized [] =
           Some (Inr (\<lparr>SrcIPs = selfIPs, DstPorts = selfPorts, IPProto = []\<rparr>, []))"
      unfolding syn by (intro synthesized_pass_eval) simp_all
    with h loop_pass_step [of index acls lb pol nodes _ "[]" rules]
    show "CompileFilterRules_loop lb pol nodes acls index rules =
            CompileFilterRules_loop lb pol nodes acls (index + 1)
              (rules @ [\<lparr>SrcIPs = selfIPs, DstPorts = selfPorts, IPProto = []\<rparr>])"
      by simp
  qed
  have c3: "(\<forall>a\<in>set (ACLs pol).
               \<exists>r ex. CompileFilterRules_acl lb pol nodes a [] = Some (Inr (r, ex)) \<and>
                 (\<forall>s\<in>set ex. \<exists>x. CompileFilterRules_acl lb pol nodes s [] = Some (Inr x))) \<longrightarrow>
             (\<exists>rules. CompileFilterRules lb (Some pol) nodes = Some (Inr rules))"
    using loop_total [of 0 "ACLs pol" lb pol nodes "[]"]
    by (simp add: CompileFilterRules_def)
  have c4: "\<forall>i rules.
            i < length (ACLs pol) \<and> ACLs pol ! i = acl \<and>
            CompileFilterRules lb (Some pol) nodes = Some (Inr rules) \<longrightarrow>
            (\<exists>ips protocols isWild destPorts j selfIPs selfPorts.
               list_all2 (\<lambda>src ip. expandSource lb pol src nodes = Some (Inr ip)) (Sources acl) ips \<and>
               parseProtocol (Protocol acl) = Inr (protocols, isWild) \<and>
               CompileFilterRules_destinations lb pol nodes acl isWild oldDst [] =
                 Some (Inr destPorts) \<and>
               rules ! i = \<lparr>SrcIPs = concat ips, DstPorts = destPorts, IPProto = protocols\<rparr> \<and>
               length (ACLs pol) \<le> j \<and> j < length rules \<and>
               expandSource lb pol autogroupSelf nodes = Some (Inr selfIPs) \<and>
               CompileFilterRules_destinations lb pol nodes synthesized False newDst [] =
                 Some (Inr selfPorts) \<and>
               rules ! j = \<lparr>SrcIPs = selfIPs, DstPorts = selfPorts, IPProto = []\<rparr>)"
  proof (intro allI impI)
    fix i rules
    assume h: "i < length (ACLs pol) \<and> ACLs pol ! i = acl \<and>
            CompileFilterRules lb (Some pol) nodes = Some (Inr rules)"
    then have "CompileFilterRules_loop lb pol nodes (ACLs pol) 0 [] = Some (Inr rules)"
      by (simp add: CompileFilterRules_def)
    from filter_loop_visits [OF this] obtain final where
      f1: "take (length (ACLs pol)) final = ACLs pol"
      and f2: "length rules = length final"
      and f4: "\<And>i. i < length final \<Longrightarrow>
              (\<exists>s r s'. length (ACLs pol) \<le> length s \<and> take (length s') final = s' \<and>
                 CompileFilterRules_acl lb pol nodes (final ! i) s = Some (Inr (r, s')) \<and>
                 rules ! i = r)"
      by auto
    from f1 h have fi: "i < length final" "final ! i = acl"
      by (metis length_take min_less_iff_conj, metis nth_take)
    from f4 [OF fi(1)] fi(2) obtain s r s' where
      ls: "length (ACLs pol) \<le> length s" and ts: "take (length s') final = s'"
      and pass: "CompileFilterRules_acl lb pol nodes acl s = Some (Inr (r, s'))"
      and ri: "rules ! i = r" by auto
    from acl_pass_parts [OF pass] obtain destinations srcIPs protocols isWild destPorts where
      src: "CompileFilterRules_sources lb pol nodes acl (Sources acl) (Destinations acl) s [] =
              Some (Inr (destinations, s', srcIPs))"
      and proto: "parseProtocol (Protocol acl) = Inr (protocols, isWild)"
      and dst: "CompileFilterRules_destinations lb pol nodes acl isWild destinations [] =
              Some (Inr destPorts)"
      and r: "r = \<lparr>SrcIPs = srcIPs, DstPorts = destPorts, IPProto = protocols\<rparr>"
      by blast
    from sources_mixed [OF src assms(2)] assms(3-6) obtain ips where
      d: "destinations = oldDst" and s': "s' = s @ [?syn]"
      and ips: "length ips = length (Sources acl)"
        "\<forall>k<length (Sources acl). expandSource lb pol (Sources acl ! k) nodes = Some (Inr (ips ! k))"
        "srcIPs = concat ips"
      by auto
    from ips(1,2) have la:
      "list_all2 (\<lambda>src ip. expandSource lb pol src nodes = Some (Inr ip)) (Sources acl) ips"
      by (simp add: list_all2_conv_all_nth)
    define j where "j = length s"
    from ts s' have jf: "j < length final"
      unfolding j_def by (metis length_append_singleton length_take lessI min_less_iff_conj)
    from ts s' have fj: "final ! j = ?syn"
      unfolding j_def by (metis length_append_singleton lessI nth_append_length nth_take)
    from f4 [OF jf] fj obtain s2 r2 s2' where
      pass2: "CompileFilterRules_acl lb pol nodes ?syn s2 = Some (Inr (r2, s2'))"
      and rj: "rules ! j = r2" by auto
    from synthesized_pass [OF pass2] obtain selfIPs selfPorts where
      syn: "expandSource lb pol autogroupSelf nodes = Some (Inr selfIPs)"
        "CompileFilterRules_destinations lb pol nodes ?syn False newDst [] = Some (Inr selfPorts)"
        "r2 = \<lparr>SrcIPs = selfIPs, DstPorts = selfPorts, IPProto = []\<rparr>"
      by blast
    from ls have lj: "length (ACLs pol) \<le> j" by (simp add: j_def)
    from jf f2 have jr: "j < length rules" by simp
    from la proto dst d ri r lj jr syn rj ips(3) assms(7)
    show "\<exists>ips protocols isWild destPorts j selfIPs selfPorts.
               list_all2 (\<lambda>src ip. expandSource lb pol src nodes = Some (Inr ip)) (Sources acl) ips \<and>
               parseProtocol (Protocol acl) = Inr (protocols, isWild) \<and>
               CompileFilterRules_destinations lb pol nodes acl isWild oldDst [] =
                 Some (Inr destPorts) \<and>
               rules ! i = \<lparr>SrcIPs = concat ips, DstPorts = destPorts, IPProto = protocols\<rparr> \<and>
               length (ACLs pol) \<le> j \<and> j < length rules \<and>
               expandSource lb pol autogroupSelf nodes = Some (Inr selfIPs) \<and>
               CompileFilterRules_destinations lb pol nodes synthesized False newDst [] =
                 Some (Inr selfPorts) \<and>
               rules ! j = \<lparr>SrcIPs = selfIPs, DstPorts = selfPorts, IPProto = []\<rparr>"
      by blast
  qed
  from c1 c2 c3 c4 show ?thesis by (intro conjI)
qed


text \<open>
  The witness of claim C3: the rule from \<^verbatim>\<open>autogroup:member\<close> to
  \<^verbatim>\<open>autogroup:self:22\<close> and \<^verbatim>\<open>*:*\<close>, second rule of its policy, for the fleet of alice's
  node. The loop goes from index 1 to index 2 with the restricted rule, from index 2 to
  index 3 with the compiled synthesized rule, and \<^verbatim>\<open>CompileFilterRules\<close> returns the
  three rules.
\<close>

theorem autogroup_self_split_example:
  "Action splitACL = ''accept'' \<and>
   list_ex (\<lambda>src. HasPrefix src autogroupMember) (Sources splitACL) \<and>
   [''autogroup:self:22''] = filter (\<lambda>dst. HasPrefix dst autogroupSelf) (Destinations splitACL) \<and>
   [''*:*''] = filter (\<lambda>dst. \<not> HasPrefix dst autogroupSelf) (Destinations splitACL) \<and>
   synthesizedACL =
     \<lparr>Action = Action splitACL, Protocol = [], Sources = [autogroupSelf],
      Destinations = [''autogroup:self:22'']\<rparr> \<and>
   (1::nat) < length (ACLs splitPolicy) \<and> ACLs splitPolicy ! 1 = splitACL \<and>
   list_all2 (\<lambda>src ip. expandSource testLib splitPolicy src [aliceNode] = Some (Inr ip))
     (Sources splitACL) [[''100.64.0.1/32'']] \<and>
   parseProtocol (Protocol splitACL) = Inr ([protocolICMP, protocolIPv6ICMP], True) \<and>
   CompileFilterRules_destinations testLib splitPolicy [aliceNode] splitACL True [''*:*''] [] =
     Some (Inr (DstPorts restrictedRule)) \<and>
   expandSource testLib splitPolicy autogroupSelf [aliceNode] = Some (Inr [''100.64.0.1/32'']) \<and>
   CompileFilterRules_destinations testLib splitPolicy [aliceNode] synthesizedACL False
     [''autogroup:self:22''] [] = Some (Inr (DstPorts selfRule)) \<and>
   CompileFilterRules_loop testLib splitPolicy [aliceNode] [allowACL, splitACL] 1 [allowRule] =
     CompileFilterRules_loop testLib splitPolicy [aliceNode]
       [allowACL, splitACL, synthesizedACL] 2 [allowRule, restrictedRule] \<and>
   CompileFilterRules_loop testLib splitPolicy [aliceNode]
       [allowACL, splitACL, synthesizedACL] 2 [allowRule, restrictedRule] =
     CompileFilterRules_loop testLib splitPolicy [aliceNode]
       [allowACL, splitACL, synthesizedACL] 3 [allowRule, restrictedRule, selfRule] \<and>
   CompileFilterRules_acl testLib splitPolicy [aliceNode] allowACL [] =
     Some (Inr (allowRule, [])) \<and>
   CompileFilterRules_acl testLib splitPolicy [aliceNode] splitACL [] =
     Some (Inr (restrictedRule, [synthesizedACL])) \<and>
   CompileFilterRules_acl testLib splitPolicy [aliceNode] synthesizedACL [] =
     Some (Inr (selfRule, [])) \<and>
   (\<exists>rules. CompileFilterRules testLib (Some splitPolicy) [aliceNode] = Some (Inr rules)) \<and>
   CompileFilterRules testLib (Some splitPolicy) [aliceNode] =
     Some (Inr [allowRule, restrictedRule, selfRule]) \<and>
   (\<exists>ips protocols isWild destPorts j selfIPs selfPorts.
      list_all2 (\<lambda>src ip. expandSource testLib splitPolicy src [aliceNode] = Some (Inr ip))
        (Sources splitACL) ips \<and>
      parseProtocol (Protocol splitACL) = Inr (protocols, isWild) \<and>
      CompileFilterRules_destinations testLib splitPolicy [aliceNode] splitACL isWild
        [''*:*''] [] = Some (Inr destPorts) \<and>
      [allowRule, restrictedRule, selfRule] ! 1 =
        \<lparr>SrcIPs = concat ips, DstPorts = destPorts, IPProto = protocols\<rparr> \<and>
      length (ACLs splitPolicy) \<le> j \<and> j < length [allowRule, restrictedRule, selfRule] \<and>
      expandSource testLib splitPolicy autogroupSelf [aliceNode] = Some (Inr selfIPs) \<and>
      CompileFilterRules_destinations testLib splitPolicy [aliceNode] synthesizedACL False
        [''autogroup:self:22''] [] = Some (Inr selfPorts) \<and>
      [allowRule, restrictedRule, selfRule] ! j =
        \<lparr>SrcIPs = selfIPs, DstPorts = selfPorts, IPProto = []\<rparr>)"
proof -
  have t: "TagOwners splitPolicy = []" and acls: "ACLs splitPolicy = [allowACL, splitACL]"
    by (simp_all add: splitPolicy_def)
  have syn: "synthesizedACL =
     \<lparr>Action = Action splitACL, Protocol = [], Sources = [autogroupSelf],
      Destinations = [''autogroup:self:22'']\<rparr>"
    by (simp add: synthesizedACL_def splitACL_def)
  have i: "(1::nat) < length (ACLs splitPolicy)" "ACLs splitPolicy ! 1 = splitACL"
    by (simp_all add: acls)
  have e: "list_all2 (\<lambda>src ip. expandSource testLib splitPolicy src [aliceNode] = Some (Inr ip))
     (Sources splitACL) [[''100.64.0.1/32'']]"
    by (simp add: splitACL_def expandSource_examples t)
  have p: "parseProtocol (Protocol splitACL) = Inr ([protocolICMP, protocolIPv6ICMP], True)"
    by (simp add: splitACL_def parseProtocol_examples)
  have d: "CompileFilterRules_destinations testLib splitPolicy [aliceNode] splitACL True
             [''*:*''] [] = Some (Inr (DstPorts restrictedRule))"
    by (simp only: destinations_all restrictedRule_def FilterRule.simps)
  have se: "expandSource testLib splitPolicy autogroupSelf [aliceNode] =
              Some (Inr [''100.64.0.1/32''])"
    by (rule expandSource_examples)
  have sd: "CompileFilterRules_destinations testLib splitPolicy [aliceNode] synthesizedACL False
     [''autogroup:self:22''] [] = Some (Inr (DstPorts selfRule))"
    unfolding synthesizedACL_def
    by (simp only: destinations_self_alice selfRule_def FilterRule.simps)
  have p0: "CompileFilterRules_acl testLib splitPolicy [aliceNode] allowACL [] =
     Some (Inr (allowRule, []))"
    by (rule allowACL_pass)
  have p1: "CompileFilterRules_acl testLib splitPolicy [aliceNode] splitACL [] =
     Some (Inr (restrictedRule, [synthesizedACL]))"
    by (simp add: splitACL_pass t synthesizedACL_def)
  have p2: "CompileFilterRules_acl testLib splitPolicy [aliceNode] synthesizedACL [] =
     Some (Inr (selfRule, []))"
    unfolding synthesizedACL_def by (rule synthesized_pass_alice)
  have c: "CompileFilterRules testLib (Some splitPolicy) [aliceNode] =
     Some (Inr [allowRule, restrictedRule, selfRule])"
    by (rule splitPolicy_compiles)
  have r1: "\<lparr>SrcIPs = [''100.64.0.1/32''], DstPorts = DstPorts restrictedRule,
             IPProto = [protocolICMP, protocolIPv6ICMP]\<rparr> = restrictedRule"
    by (simp add: restrictedRule_def)
  have r2: "\<lparr>SrcIPs = [''100.64.0.1/32''], DstPorts = DstPorts selfRule, IPProto = []\<rparr> = selfRule"
    by (simp add: selfRule_def)
  have ne: "[''autogroup:self:22''] \<noteq> []" "[''*:*''] \<noteq> []" by simp_all
  note th = autogroup_self_split_rules [OF splitACL_parts(1,2,3,4) ne syn,
      of testLib splitPolicy "[aliceNode]"]
  note s1 = th [THEN conjunct1, rule_format]
  note s2 = th [THEN conjunct2, THEN conjunct1, rule_format]
  note s3 = th [THEN conjunct2, THEN conjunct2, THEN conjunct1, rule_format]
  note s4 = th [THEN conjunct2, THEN conjunct2, THEN conjunct2, rule_format]
  have l1: "CompileFilterRules_loop testLib splitPolicy [aliceNode] [allowACL, splitACL] 1
              [allowRule] =
     CompileFilterRules_loop testLib splitPolicy [aliceNode]
       [allowACL, splitACL, synthesizedACL] 2 [allowRule, restrictedRule]"
  proof -
    have a: "(1::nat) < length [allowACL, splitACL]" "[allowACL, splitACL] ! 1 = splitACL"
      by simp_all
    from s1 [OF conjI [OF a(1) conjI [OF a(2) conjI [OF e conjI [OF p d]]]], of "[allowRule]"]
    show ?thesis by (simp add: r1 numeral_2_eq_2)
  qed
  have l2: "CompileFilterRules_loop testLib splitPolicy [aliceNode]
       [allowACL, splitACL, synthesizedACL] 2 [allowRule, restrictedRule] =
     CompileFilterRules_loop testLib splitPolicy [aliceNode]
       [allowACL, splitACL, synthesizedACL] 3 [allowRule, restrictedRule, selfRule]"
  proof -
    have a: "(2::nat) < length [allowACL, splitACL, synthesizedACL]"
      "[allowACL, splitACL, synthesizedACL] ! 2 = synthesizedACL"
      by simp_all
    from s2 [OF conjI [OF a(1) conjI [OF a(2) conjI [OF se sd]]],
        of "[allowRule, restrictedRule]"]
    show ?thesis by (simp add: r2 numeral_2_eq_2 numeral_3_eq_3)
  qed
  have all: "\<exists>r ex. CompileFilterRules_acl testLib splitPolicy [aliceNode] a [] =
                 Some (Inr (r, ex)) \<and>
               (\<forall>s\<in>set ex. \<exists>x. CompileFilterRules_acl testLib splitPolicy [aliceNode] s [] =
                  Some (Inr x))"
    if "a \<in> set (ACLs splitPolicy)" for a
    using that p0 p1 p2 by (auto simp: acls)
  have ex: "\<exists>rules. CompileFilterRules testLib (Some splitPolicy) [aliceNode] = Some (Inr rules)"
    by (rule s3) (rule all)
  note s = s4 [of 1 "[allowRule, restrictedRule, selfRule]", OF conjI [OF i(1) conjI [OF i(2) c]]]
  from splitACL_parts syn i e p d se sd l1 l2 p0 p1 p2 ex c s show ?thesis
    by (intro conjI)
qed


text \<open>
  Claim C3 as stated fails: the rule with the sources \<^verbatim>\<open>group:nope\<close> and
  \<^verbatim>\<open>autogroup:member\<close> and the destinations \<^verbatim>\<open>autogroup:self:22\<close> and \<^verbatim>\<open>*:*\<close> has the
  action \<^verbatim>\<open>accept\<close>, a source beginning with \<^verbatim>\<open>autogroup:member\<close> and destinations of
  both kinds, and \<^verbatim>\<open>CompileFilterRules\<close> emits no rule for it: it returns the
  invalid-group error of the first source.
\<close>

theorem autogroup_self_split_after_source_error:
  "Action groupSplitACL = ''accept'' \<and>
   list_ex (\<lambda>src. HasPrefix src autogroupMember) (Sources groupSplitACL) \<and>
   filter (\<lambda>dst. HasPrefix dst autogroupSelf) (Destinations groupSplitACL) =
     [''autogroup:self:22''] \<and>
   filter (\<lambda>dst. \<not> HasPrefix dst autogroupSelf) (Destinations groupSplitACL) = [''*:*''] \<and>
   ACLs groupSplitPolicy = [groupSplitACL] \<and>
   CompileFilterRules testLib (Some groupSplitPolicy) [aliceNode] = Some (Inl unknownGroupError)"
proof -
  have "CompileFilterRules testLib (Some groupSplitPolicy) [aliceNode] =
          Some (Inl unknownGroupError)"
    by (rule unknown_group_policy [where acl = groupSplitACL])
       (simp_all add: groupSplitPolicy_def groupSplitACL_def)
  then show ?thesis
    by (simp add: groupSplitPolicy_def groupSplitACL_def HasPrefix_def autogroupMember_def
        autogroupSelf_def)
qed


subsection \<open>Misuse of autogroup:self\<close>

text \<open>
  Claim C5, as amended. Take an access rule whose sources are not the one source
  \<^verbatim>\<open>autogroup:self\<close> or \<^verbatim>\<open>autogroup:member\<close> and a destination that parses to an alias
  beginning with \<^verbatim>\<open>autogroup:self\<close>.

  \<^enum> Whenever the loop of \<^verbatim>\<open>CompileFilterRules\<close> stands at the rule and the pass gets
    as far as the destination (the action is \<^verbatim>\<open>accept\<close>, the sources expand and leave
    the destination on the rule, the protocol parses, the destinations before it
    compile), the loop returns the autogroup-self-misuse error.
  \<^enum> If the rule is number \<open>i\<close> of the policy, the pass over every rule before it
    succeeds, and the pass over the rule gets as far as the destination,
    \<^verbatim>\<open>CompileFilterRules\<close> returns the autogroup-self-misuse error.
  \<^enum> If the pass over number \<open>i\<close> of the policy fails and the pass over every rule
    before it succeeds, \<^verbatim>\<open>CompileFilterRules\<close> returns the error of that pass: a
    failure before the destination is the one reported.
  \<^enum> If the rule is one of the policy's and the split does not move the destination
    to a synthesized rule, \<^verbatim>\<open>CompileFilterRules\<close> returns no rule list.
\<close>

theorem autogroup_self_misuse_fails:
  assumes "parseDestination lb dest = Inr (alias, port)"
    and "HasPrefix alias autogroupSelf"
    and "Sources acl \<noteq> [autogroupSelf]" and "Sources acl \<noteq> [autogroupMember]"
  shows "(\<forall>acls index rules pre post acls' srcIPs protocols isWild dp.
            index < length acls \<and> acls ! index = acl \<and> Action acl = ''accept'' \<and>
            CompileFilterRules_sources lb pol nodes acl (Sources acl) (Destinations acl) acls [] =
              Some (Inr (pre @ dest # post, acls', srcIPs)) \<and>
            parseProtocol (Protocol acl) = Inr (protocols, isWild) \<and>
            CompileFilterRules_destinations lb pol nodes acl isWild pre [] = Some (Inr dp) \<longrightarrow>
            CompileFilterRules_loop lb pol nodes acls index rules = Some (Inl ErrAutogroupSelf))
         \<and> (\<forall>i s pre post s' srcIPs protocols isWild dp.
            i < length (ACLs pol) \<and> ACLs pol ! i = acl \<and>
            (\<forall>k<i. \<exists>t x. CompileFilterRules_acl lb pol nodes (ACLs pol ! k) t = Some (Inr x)) \<and>
            Action acl = ''accept'' \<and>
            CompileFilterRules_sources lb pol nodes acl (Sources acl) (Destinations acl) s [] =
              Some (Inr (pre @ dest # post, s', srcIPs)) \<and>
            parseProtocol (Protocol acl) = Inr (protocols, isWild) \<and>
            CompileFilterRules_destinations lb pol nodes acl isWild pre [] = Some (Inr dp) \<longrightarrow>
            CompileFilterRules lb (Some pol) nodes = Some (Inl ErrAutogroupSelf))
         \<and> (\<forall>i s e.
            i < length (ACLs pol) \<and>
            (\<forall>k<i. \<exists>t x. CompileFilterRules_acl lb pol nodes (ACLs pol ! k) t = Some (Inr x)) \<and>
            CompileFilterRules_acl lb pol nodes (ACLs pol ! i) s = Some (Inl e) \<longrightarrow>
            CompileFilterRules lb (Some pol) nodes = Some (Inl e))
         \<and> (acl \<in> set (ACLs pol) \<and> dest \<in> set (Destinations acl) \<and> \<not> movedBySplit acl dest \<longrightarrow>
              (\<forall>rules. CompileFilterRules lb (Some pol) nodes \<noteq> Some (Inr rules)))"
proof -
  have m: "autogroupSelfMisuse (Sources acl) alias"
    using assms(2-4) by (simp add: autogroupSelfMisuse_sources)
  have here: "CompileFilterRules_acl lb pol nodes acl s = Some (Inl ErrAutogroupSelf)"
    if "Action acl = ''accept''"
      and "CompileFilterRules_sources lb pol nodes acl (Sources acl) (Destinations acl) s [] =
              Some (Inr (pre @ dest # post, s', srcIPs))"
      and "parseProtocol (Protocol acl) = Inr (protocols, isWild)"
      and "CompileFilterRules_destinations lb pol nodes acl isWild pre [] = Some (Inr dp)"
    for s pre post s' srcIPs protocols isWild dp
  proof -
    from m assms(1)
    have "CompileFilterRules_destinations lb pol nodes acl isWild (dest # post) dp =
            Some (Inl ErrAutogroupSelf)"
      by simp
    from pass_fails_at_destination [OF that(1,2,3,4) this] show ?thesis .
  qed
  have c1: "\<forall>acls index rules pre post acls' srcIPs protocols isWild dp.
            index < length acls \<and> acls ! index = acl \<and> Action acl = ''accept'' \<and>
            CompileFilterRules_sources lb pol nodes acl (Sources acl) (Destinations acl) acls [] =
              Some (Inr (pre @ dest # post, acls', srcIPs)) \<and>
            parseProtocol (Protocol acl) = Inr (protocols, isWild) \<and>
            CompileFilterRules_destinations lb pol nodes acl isWild pre [] = Some (Inr dp) \<longrightarrow>
            CompileFilterRules_loop lb pol nodes acls index rules = Some (Inl ErrAutogroupSelf)"
  proof (intro allI impI)
    fix acls index rules pre post acls' srcIPs protocols isWild dp
    assume h: "index < length acls \<and> acls ! index = acl \<and> Action acl = ''accept'' \<and>
            CompileFilterRules_sources lb pol nodes acl (Sources acl) (Destinations acl) acls [] =
              Some (Inr (pre @ dest # post, acls', srcIPs)) \<and>
            parseProtocol (Protocol acl) = Inr (protocols, isWild) \<and>
            CompileFilterRules_destinations lb pol nodes acl isWild pre [] = Some (Inr dp)"
    then have "CompileFilterRules_acl lb pol nodes acl acls = Some (Inl ErrAutogroupSelf)"
      using here by blast
    with h show "CompileFilterRules_loop lb pol nodes acls index rules =
                   Some (Inl ErrAutogroupSelf)"
      using loop_fails_here [of index acls lb pol nodes] by simp
  qed
  have c2: "\<forall>i s pre post s' srcIPs protocols isWild dp.
            i < length (ACLs pol) \<and> ACLs pol ! i = acl \<and>
            (\<forall>k<i. \<exists>t x. CompileFilterRules_acl lb pol nodes (ACLs pol ! k) t = Some (Inr x)) \<and>
            Action acl = ''accept'' \<and>
            CompileFilterRules_sources lb pol nodes acl (Sources acl) (Destinations acl) s [] =
              Some (Inr (pre @ dest # post, s', srcIPs)) \<and>
            parseProtocol (Protocol acl) = Inr (protocols, isWild) \<and>
            CompileFilterRules_destinations lb pol nodes acl isWild pre [] = Some (Inr dp) \<longrightarrow>
            CompileFilterRules lb (Some pol) nodes = Some (Inl ErrAutogroupSelf)"
  proof (intro allI impI)
    fix i s pre post s' srcIPs protocols isWild dp
    assume h: "i < length (ACLs pol) \<and> ACLs pol ! i = acl \<and>
            (\<forall>k<i. \<exists>t x. CompileFilterRules_acl lb pol nodes (ACLs pol ! k) t = Some (Inr x)) \<and>
            Action acl = ''accept'' \<and>
            CompileFilterRules_sources lb pol nodes acl (Sources acl) (Destinations acl) s [] =
              Some (Inr (pre @ dest # post, s', srcIPs)) \<and>
            parseProtocol (Protocol acl) = Inr (protocols, isWild) \<and>
            CompileFilterRules_destinations lb pol nodes acl isWild pre [] = Some (Inr dp)"
    then have "CompileFilterRules_acl lb pol nodes (ACLs pol ! i) s = Some (Inl ErrAutogroupSelf)"
      using here by blast
    with h show "CompileFilterRules lb (Some pol) nodes = Some (Inl ErrAutogroupSelf)"
      using compile_reports_first_failure [of i pol lb nodes s] by blast
  qed
  have c3: "\<forall>i s e.
            i < length (ACLs pol) \<and>
            (\<forall>k<i. \<exists>t x. CompileFilterRules_acl lb pol nodes (ACLs pol ! k) t = Some (Inr x)) \<and>
            CompileFilterRules_acl lb pol nodes (ACLs pol ! i) s = Some (Inl e) \<longrightarrow>
            CompileFilterRules lb (Some pol) nodes = Some (Inl e)"
    using compile_reports_first_failure [of _ pol lb nodes] by blast
  have c4: "acl \<in> set (ACLs pol) \<and> dest \<in> set (Destinations acl) \<and> \<not> movedBySplit acl dest \<longrightarrow>
              (\<forall>rules. CompileFilterRules lb (Some pol) nodes \<noteq> Some (Inr rules))"
  proof (intro impI allI)
    fix rules
    assume h: "acl \<in> set (ACLs pol) \<and> dest \<in> set (Destinations acl) \<and> \<not> movedBySplit acl dest"
    show "CompileFilterRules lb (Some pol) nodes \<noteq> Some (Inr rules)"
    proof
      assume "CompileFilterRules lb (Some pol) nodes = Some (Inr rules)"
      from compile_visits [OF this] h obtain s r s' where
        pass: "CompileFilterRules_acl lb pol nodes acl s = Some (Inr (r, s'))" by (metis surj_pair)
      from h have d: "dest \<in> set (Destinations acl)" and n: "\<not> movedBySplit acl dest"
        by simp_all
      from acl_pass_destination [OF pass d n] assms(1) have
        "\<not> autogroupSelfMisuse (Sources acl) alias" by auto
      with m show False by simp
    qed
  qed
  from c1 c2 c3 c4 show ?thesis by (intro conjI)
qed


text \<open>
  The witness of claim C5: the rule from \<^verbatim>\<open>alice\<close> to \<^verbatim>\<open>autogroup:self:*\<close>, second rule
  of its policy after a rule that compiles, for the fleet of alice's node.
\<close>

theorem autogroup_self_misuse_example:
  "parseDestination testLib ''autogroup:self:*'' = Inr (''autogroup:self'', ''*'') \<and>
   HasPrefix ''autogroup:self'' autogroupSelf \<and>
   Sources selfACL \<noteq> [autogroupSelf] \<and> Sources selfACL \<noteq> [autogroupMember] \<and>
   (1::nat) < length (ACLs selfPolicy) \<and> ACLs selfPolicy ! 1 = selfACL \<and>
   CompileFilterRules_acl testLib selfPolicy [aliceNode] (ACLs selfPolicy ! 0) [] =
     Some (Inr (allowRule, [])) \<and>
   Action selfACL = ''accept'' \<and>
   CompileFilterRules_sources testLib selfPolicy [aliceNode] selfACL (Sources selfACL)
     (Destinations selfACL) (ACLs selfPolicy) [] =
     Some (Inr ([] @ ''autogroup:self:*'' # [], ACLs selfPolicy, [''100.64.0.1/32''])) \<and>
   parseProtocol (Protocol selfACL) = Inr ([], False) \<and>
   CompileFilterRules_destinations testLib selfPolicy [aliceNode] selfACL False [] [] =
     Some (Inr []) \<and>
   selfACL \<in> set (ACLs selfPolicy) \<and> ''autogroup:self:*'' \<in> set (Destinations selfACL) \<and>
   \<not> movedBySplit selfACL ''autogroup:self:*'' \<and>
   CompileFilterRules_loop testLib selfPolicy [aliceNode] (ACLs selfPolicy) 1 [allowRule] =
     Some (Inl ErrAutogroupSelf) \<and>
   CompileFilterRules testLib (Some selfPolicy) [aliceNode] = Some (Inl ErrAutogroupSelf) \<and>
   (\<forall>rules. CompileFilterRules testLib (Some selfPolicy) [aliceNode] \<noteq> Some (Inr rules))"
proof -
  have acls: "ACLs selfPolicy = [allowACL, selfACL]"
    and pol: "TagOwners selfPolicy = []" "Groups selfPolicy = []" "Hosts selfPolicy = []"
    by (simp_all add: selfPolicy_def)
  have d: "parseDestination testLib ''autogroup:self:*'' = Inr (''autogroup:self'', ''*'')"
    by (rule parseDestination_examples)
  have h: "HasPrefix ''autogroup:self'' autogroupSelf"
    by (simp add: HasPrefix_def autogroupSelf_def)
  have ns: "Sources selfACL \<noteq> [autogroupSelf]" "Sources selfACL \<noteq> [autogroupMember]"
    by (simp_all add: selfACL_def autogroupSelf_def autogroupMember_def)
  have i: "(1::nat) < length (ACLs selfPolicy)" "ACLs selfPolicy ! 1 = selfACL"
    by (simp_all add: acls)
  have p0: "CompileFilterRules_acl testLib selfPolicy [aliceNode] (ACLs selfPolicy ! 0) [] =
     Some (Inr (allowRule, []))"
    by (simp add: acls allowACL_pass)
  have a: "Action selfACL = ''accept''" by (simp add: selfACL_def)
  have s: "CompileFilterRules_sources testLib selfPolicy [aliceNode] selfACL (Sources selfACL)
     (Destinations selfACL) (ACLs selfPolicy) [] =
     Some (Inr ([] @ ''autogroup:self:*'' # [], ACLs selfPolicy, [''100.64.0.1/32'']))"
    by (rule selfACL_sources [OF pol])
  have p: "parseProtocol (Protocol selfACL) = Inr ([], False)"
    by (simp add: selfACL_def parseProtocol_examples)
  have e: "CompileFilterRules_destinations testLib selfPolicy [aliceNode] selfACL False [] [] =
     Some (Inr [])"
    by simp
  have k: "selfACL \<in> set (ACLs selfPolicy)" "''autogroup:self:*'' \<in> set (Destinations selfACL)"
    "\<not> movedBySplit selfACL ''autogroup:self:*''"
    by (simp_all add: acls selfACL_def movedBySplit_def hasMemberSource_def
        HasPrefix_def autogroupMember_def)
  have earlier: "\<forall>k<1. \<exists>t x. CompileFilterRules_acl testLib selfPolicy [aliceNode]
                   (ACLs selfPolicy ! k) t = Some (Inr x)"
    using p0 by auto
  note th = autogroup_self_misuse_fails [OF d h ns, of selfPolicy "[aliceNode]"]
  note s1 = th [THEN conjunct1, rule_format]
  note s2 = th [THEN conjunct2, THEN conjunct1, rule_format]
  note s4 = th [THEN conjunct2, THEN conjunct2, THEN conjunct2, rule_format]
  from s1 [OF conjI [OF i(1) conjI [OF i(2) conjI [OF a conjI [OF s conjI [OF p e]]]]],
      of "[allowRule]"]
  have l: "CompileFilterRules_loop testLib selfPolicy [aliceNode] (ACLs selfPolicy) 1
             [allowRule] = Some (Inl ErrAutogroupSelf)" .
  from s2 [OF conjI [OF i(1) conjI [OF i(2) conjI [OF earlier conjI [OF a conjI [OF s
      conjI [OF p e]]]]]]]
  have c: "CompileFilterRules testLib (Some selfPolicy) [aliceNode] =
             Some (Inl ErrAutogroupSelf)" .
  from s4 [OF conjI [OF k(1) conjI [OF k(2) k(3)]]]
  have no: "\<forall>rules. CompileFilterRules testLib (Some selfPolicy) [aliceNode] \<noteq>
              Some (Inr rules)"
    by blast
  from d h ns i p0 a s p e k l c no show ?thesis by (intro conjI)
qed


text \<open>
  Claim C5 as stated fails: the rule from the undeclared group to \<^verbatim>\<open>autogroup:self:*\<close>
  makes \<^verbatim>\<open>CompileFilterRules\<close> fail with the invalid-group error of its source, which
  is expanded before the destinations are looked at.
\<close>

theorem autogroup_self_misuse_after_source_error:
  "Destinations groupSelfACL = [''autogroup:self:*''] \<and>
   parseDestination testLib ''autogroup:self:*'' = Inr (''autogroup:self'', ''*'') \<and>
   HasPrefix ''autogroup:self'' autogroupSelf \<and>
   Sources groupSelfACL = [''group:nope''] \<and>
   CompileFilterRules testLib (Some groupSelfPolicy) [] = Some (Inl unknownGroupError) \<and>
   \<not> errors_Is unknownGroupError ErrAutogroupSelf"
proof -
  have "CompileFilterRules testLib (Some groupSelfPolicy) [] = Some (Inl unknownGroupError)"
    by (rule unknown_group_policy [where acl = groupSelfACL])
       (simp_all add: groupSelfPolicy_def groupSelfACL_def)
  then show ?thesis
    by (simp add: parseDestination_examples unknownGroupError_def HasPrefix_def autogroupSelf_def
        groupSelfACL_def)
qed


subsection \<open>Protocols that need the wildcard port\<close>

text \<open>
  Claim C6, as amended. Take an access rule whose protocol parses with the
  wildcard-required flag (any protocol but TCP, UDP, SCTP and the empty default) and a
  destination that parses to a port specification other than \<^verbatim>\<open>*\<close>.

  \<^enum> Whenever the loop of \<^verbatim>\<open>CompileFilterRules\<close> stands at the rule and the pass gets
    as far as the ports of the destination (the action is \<^verbatim>\<open>accept\<close>, the sources
    expand and leave the destination on the rule, the destinations before it compile,
    its alias passes the \<^verbatim>\<open>autogroup:self\<close> test and expands), the loop returns the
    wildcard-required error.
  \<^enum> If the rule is number \<open>i\<close> of the policy, the pass over every rule before it
    succeeds, and the pass over the rule gets as far as the ports of the
    destination, \<^verbatim>\<open>CompileFilterRules\<close> returns the wildcard-required error.
  \<^enum> If the pass over number \<open>i\<close> of the policy fails and the pass over every rule
    before it succeeds, \<^verbatim>\<open>CompileFilterRules\<close> returns the error of that pass: a
    failure before the ports of the destination is the one reported.
  \<^enum> If the rule is one of the policy's and the split does not move the destination
    to a synthesized rule, \<^verbatim>\<open>CompileFilterRules\<close> returns no rule list.
\<close>

theorem wildcard_required_fails:
  assumes "parseProtocol (Protocol acl) = Inr (protocols, True)"
    and "parseDestination lb dest = Inr (alias, port)" and "port \<noteq> ''*''"
  shows "(\<forall>acls index rules pre post acls' srcIPs dp expanded.
            index < length acls \<and> acls ! index = acl \<and> Action acl = ''accept'' \<and>
            CompileFilterRules_sources lb pol nodes acl (Sources acl) (Destinations acl) acls [] =
              Some (Inr (pre @ dest # post, acls', srcIPs)) \<and>
            CompileFilterRules_destinations lb pol nodes acl True pre [] = Some (Inr dp) \<and>
            \<not> autogroupSelfMisuse (Sources acl) alias \<and>
            ExpandAlias lb pol nodes alias = Some (Inr expanded) \<longrightarrow>
            CompileFilterRules_loop lb pol nodes acls index rules = Some (Inl ErrWildcardIsNeeded))
         \<and> (\<forall>i s pre post s' srcIPs dp expanded.
            i < length (ACLs pol) \<and> ACLs pol ! i = acl \<and>
            (\<forall>k<i. \<exists>t x. CompileFilterRules_acl lb pol nodes (ACLs pol ! k) t = Some (Inr x)) \<and>
            Action acl = ''accept'' \<and>
            CompileFilterRules_sources lb pol nodes acl (Sources acl) (Destinations acl) s [] =
              Some (Inr (pre @ dest # post, s', srcIPs)) \<and>
            CompileFilterRules_destinations lb pol nodes acl True pre [] = Some (Inr dp) \<and>
            \<not> autogroupSelfMisuse (Sources acl) alias \<and>
            ExpandAlias lb pol nodes alias = Some (Inr expanded) \<longrightarrow>
            CompileFilterRules lb (Some pol) nodes = Some (Inl ErrWildcardIsNeeded))
         \<and> (\<forall>i s e.
            i < length (ACLs pol) \<and>
            (\<forall>k<i. \<exists>t x. CompileFilterRules_acl lb pol nodes (ACLs pol ! k) t = Some (Inr x)) \<and>
            CompileFilterRules_acl lb pol nodes (ACLs pol ! i) s = Some (Inl e) \<longrightarrow>
            CompileFilterRules lb (Some pol) nodes = Some (Inl e))
         \<and> (acl \<in> set (ACLs pol) \<and> dest \<in> set (Destinations acl) \<and> \<not> movedBySplit acl dest \<longrightarrow>
              (\<forall>rules. CompileFilterRules lb (Some pol) nodes \<noteq> Some (Inr rules)))"
proof -
  have here: "CompileFilterRules_acl lb pol nodes acl s = Some (Inl ErrWildcardIsNeeded)"
    if "Action acl = ''accept''"
      and "CompileFilterRules_sources lb pol nodes acl (Sources acl) (Destinations acl) s [] =
              Some (Inr (pre @ dest # post, s', srcIPs))"
      and "CompileFilterRules_destinations lb pol nodes acl True pre [] = Some (Inr dp)"
      and "\<not> autogroupSelfMisuse (Sources acl) alias"
      and "ExpandAlias lb pol nodes alias = Some (Inr expanded)"
    for s pre post s' srcIPs dp expanded
  proof -
    from that(4,5) assms(2) expandPorts_needs_wildcard [OF assms(3)]
    have "CompileFilterRules_destinations lb pol nodes acl True (dest # post) dp =
            Some (Inl ErrWildcardIsNeeded)"
      by simp
    from pass_fails_at_destination [OF that(1,2) assms(1) that(3) this] show ?thesis .
  qed
  have c1: "\<forall>acls index rules pre post acls' srcIPs dp expanded.
            index < length acls \<and> acls ! index = acl \<and> Action acl = ''accept'' \<and>
            CompileFilterRules_sources lb pol nodes acl (Sources acl) (Destinations acl) acls [] =
              Some (Inr (pre @ dest # post, acls', srcIPs)) \<and>
            CompileFilterRules_destinations lb pol nodes acl True pre [] = Some (Inr dp) \<and>
            \<not> autogroupSelfMisuse (Sources acl) alias \<and>
            ExpandAlias lb pol nodes alias = Some (Inr expanded) \<longrightarrow>
            CompileFilterRules_loop lb pol nodes acls index rules = Some (Inl ErrWildcardIsNeeded)"
  proof (intro allI impI)
    fix acls index rules pre post acls' srcIPs dp expanded
    assume h: "index < length acls \<and> acls ! index = acl \<and> Action acl = ''accept'' \<and>
            CompileFilterRules_sources lb pol nodes acl (Sources acl) (Destinations acl) acls [] =
              Some (Inr (pre @ dest # post, acls', srcIPs)) \<and>
            CompileFilterRules_destinations lb pol nodes acl True pre [] = Some (Inr dp) \<and>
            \<not> autogroupSelfMisuse (Sources acl) alias \<and>
            ExpandAlias lb pol nodes alias = Some (Inr expanded)"
    then have "CompileFilterRules_acl lb pol nodes acl acls = Some (Inl ErrWildcardIsNeeded)"
      using here by blast
    with h show "CompileFilterRules_loop lb pol nodes acls index rules =
                   Some (Inl ErrWildcardIsNeeded)"
      using loop_fails_here [of index acls lb pol nodes] by simp
  qed
  have c2: "\<forall>i s pre post s' srcIPs dp expanded.
            i < length (ACLs pol) \<and> ACLs pol ! i = acl \<and>
            (\<forall>k<i. \<exists>t x. CompileFilterRules_acl lb pol nodes (ACLs pol ! k) t = Some (Inr x)) \<and>
            Action acl = ''accept'' \<and>
            CompileFilterRules_sources lb pol nodes acl (Sources acl) (Destinations acl) s [] =
              Some (Inr (pre @ dest # post, s', srcIPs)) \<and>
            CompileFilterRules_destinations lb pol nodes acl True pre [] = Some (Inr dp) \<and>
            \<not> autogroupSelfMisuse (Sources acl) alias \<and>
            ExpandAlias lb pol nodes alias = Some (Inr expanded) \<longrightarrow>
            CompileFilterRules lb (Some pol) nodes = Some (Inl ErrWildcardIsNeeded)"
  proof (intro allI impI)
    fix i s pre post s' srcIPs dp expanded
    assume h: "i < length (ACLs pol) \<and> ACLs pol ! i = acl \<and>
            (\<forall>k<i. \<exists>t x. CompileFilterRules_acl lb pol nodes (ACLs pol ! k) t = Some (Inr x)) \<and>
            Action acl = ''accept'' \<and>
            CompileFilterRules_sources lb pol nodes acl (Sources acl) (Destinations acl) s [] =
              Some (Inr (pre @ dest # post, s', srcIPs)) \<and>
            CompileFilterRules_destinations lb pol nodes acl True pre [] = Some (Inr dp) \<and>
            \<not> autogroupSelfMisuse (Sources acl) alias \<and>
            ExpandAlias lb pol nodes alias = Some (Inr expanded)"
    then have "CompileFilterRules_acl lb pol nodes (ACLs pol ! i) s = Some (Inl ErrWildcardIsNeeded)"
      using here by blast
    with h show "CompileFilterRules lb (Some pol) nodes = Some (Inl ErrWildcardIsNeeded)"
      using compile_reports_first_failure [of i pol lb nodes s] by blast
  qed
  have c3: "\<forall>i s e.
            i < length (ACLs pol) \<and>
            (\<forall>k<i. \<exists>t x. CompileFilterRules_acl lb pol nodes (ACLs pol ! k) t = Some (Inr x)) \<and>
            CompileFilterRules_acl lb pol nodes (ACLs pol ! i) s = Some (Inl e) \<longrightarrow>
            CompileFilterRules lb (Some pol) nodes = Some (Inl e)"
    using compile_reports_first_failure [of _ pol lb nodes] by blast
  have c4: "acl \<in> set (ACLs pol) \<and> dest \<in> set (Destinations acl) \<and> \<not> movedBySplit acl dest \<longrightarrow>
              (\<forall>rules. CompileFilterRules lb (Some pol) nodes \<noteq> Some (Inr rules))"
  proof (intro impI allI)
    fix rules
    assume h: "acl \<in> set (ACLs pol) \<and> dest \<in> set (Destinations acl) \<and> \<not> movedBySplit acl dest"
    show "CompileFilterRules lb (Some pol) nodes \<noteq> Some (Inr rules)"
    proof
      assume "CompileFilterRules lb (Some pol) nodes = Some (Inr rules)"
      from compile_visits [OF this] h obtain s r s' where
        pass: "CompileFilterRules_acl lb pol nodes acl s = Some (Inr (r, s'))" by (metis surj_pair)
      from h have d: "dest \<in> set (Destinations acl)" and n: "\<not> movedBySplit acl dest"
        by simp_all
      from acl_pass_destination [OF pass d n] assms(1,2) obtain ports where
        "expandPorts port True = Inr ports" by auto
      with expandPorts_needs_wildcard [OF assms(3)] show False by simp
    qed
  qed
  from c1 c2 c3 c4 show ?thesis by (intro conjI)
qed


text \<open>
  The witness of claim C6: the ICMP rule with the destination \<^verbatim>\<open>*:22\<close>, second rule of
  its policy after a rule that compiles, for the fleet of alice's node.
\<close>

theorem wildcard_required_icmp_example:
  "parseProtocol (Protocol icmpACL) = Inr ([protocolICMP, protocolIPv6ICMP], True) \<and>
   parseDestination testLib ''*:22'' = Inr (''*'', ''22'') \<and> ''22'' \<noteq> ''*'' \<and>
   (1::nat) < length (ACLs icmpPolicy) \<and> ACLs icmpPolicy ! 1 = icmpACL \<and>
   CompileFilterRules_acl testLib icmpPolicy [aliceNode] (ACLs icmpPolicy ! 0) [] =
     Some (Inr (allowRule, [])) \<and>
   Action icmpACL = ''accept'' \<and>
   CompileFilterRules_sources testLib icmpPolicy [aliceNode] icmpACL (Sources icmpACL)
     (Destinations icmpACL) (ACLs icmpPolicy) [] =
     Some (Inr ([] @ ''*:22'' # [], ACLs icmpPolicy, [''0.0.0.0/0'', ''::/0''])) \<and>
   CompileFilterRules_destinations testLib icmpPolicy [aliceNode] icmpACL True [] [] =
     Some (Inr []) \<and>
   \<not> autogroupSelfMisuse (Sources icmpACL) ''*'' \<and>
   ExpandAlias testLib icmpPolicy [aliceNode] ''*'' = Some (Inr allIPs) \<and>
   icmpACL \<in> set (ACLs icmpPolicy) \<and> ''*:22'' \<in> set (Destinations icmpACL) \<and>
   \<not> movedBySplit icmpACL ''*:22'' \<and>
   CompileFilterRules_loop testLib icmpPolicy [aliceNode] (ACLs icmpPolicy) 1 [allowRule] =
     Some (Inl ErrWildcardIsNeeded) \<and>
   CompileFilterRules testLib (Some icmpPolicy) [aliceNode] = Some (Inl ErrWildcardIsNeeded) \<and>
   (\<forall>rules. CompileFilterRules testLib (Some icmpPolicy) [aliceNode] \<noteq> Some (Inr rules))"
proof -
  have acls: "ACLs icmpPolicy = [allowACL, icmpACL]" by (simp add: icmpPolicy_def)
  have p: "parseProtocol (Protocol icmpACL) = Inr ([protocolICMP, protocolIPv6ICMP], True)"
    by (simp add: icmpACL_def parseProtocol_examples)
  have d: "parseDestination testLib ''*:22'' = Inr (''*'', ''22'')"
    by (rule parseDestination_examples)
  have n: "''22'' \<noteq> ''*''" by simp
  have i: "(1::nat) < length (ACLs icmpPolicy)" "ACLs icmpPolicy ! 1 = icmpACL"
    by (simp_all add: acls)
  have p0: "CompileFilterRules_acl testLib icmpPolicy [aliceNode] (ACLs icmpPolicy ! 0) [] =
     Some (Inr (allowRule, []))"
    by (simp add: acls allowACL_pass)
  have a: "Action icmpACL = ''accept''" by (simp add: icmpACL_def)
  have s: "CompileFilterRules_sources testLib icmpPolicy [aliceNode] icmpACL (Sources icmpACL)
     (Destinations icmpACL) (ACLs icmpPolicy) [] =
     Some (Inr ([] @ ''*:22'' # [], ACLs icmpPolicy, [''0.0.0.0/0'', ''::/0'']))"
    by (rule icmpACL_sources)
  have e: "CompileFilterRules_destinations testLib icmpPolicy [aliceNode] icmpACL True [] [] =
     Some (Inr [])"
    by simp
  have m: "\<not> autogroupSelfMisuse (Sources icmpACL) ''*''"
    by (rule wildcard_no_misuse)
  have x: "ExpandAlias testLib icmpPolicy [aliceNode] ''*'' = Some (Inr allIPs)"
    by (rule ExpandAlias_wildcard)
  have k: "icmpACL \<in> set (ACLs icmpPolicy)" "''*:22'' \<in> set (Destinations icmpACL)"
    "\<not> movedBySplit icmpACL ''*:22''"
    by (simp_all add: acls icmpACL_def movedBySplit_def HasPrefix_def autogroupSelf_def)
  have earlier: "\<forall>k<1. \<exists>t x. CompileFilterRules_acl testLib icmpPolicy [aliceNode]
                   (ACLs icmpPolicy ! k) t = Some (Inr x)"
    using p0 by auto
  note th = wildcard_required_fails [OF p d n, of icmpPolicy "[aliceNode]"]
  note s1 = th [THEN conjunct1, rule_format]
  note s2 = th [THEN conjunct2, THEN conjunct1, rule_format]
  note s4 = th [THEN conjunct2, THEN conjunct2, THEN conjunct2, rule_format]
  from s1 [OF conjI [OF i(1) conjI [OF i(2) conjI [OF a conjI [OF s conjI [OF e conjI [OF m x]]]]]],
      of "[allowRule]"]
  have l: "CompileFilterRules_loop testLib icmpPolicy [aliceNode] (ACLs icmpPolicy) 1
             [allowRule] = Some (Inl ErrWildcardIsNeeded)" .
  from s2 [OF conjI [OF i(1) conjI [OF i(2) conjI [OF earlier conjI [OF a conjI [OF s
      conjI [OF e conjI [OF m x]]]]]]]]
  have c: "CompileFilterRules testLib (Some icmpPolicy) [aliceNode] =
             Some (Inl ErrWildcardIsNeeded)" .
  from s4 [OF conjI [OF k(1) conjI [OF k(2) k(3)]]]
  have no: "\<forall>rules. CompileFilterRules testLib (Some icmpPolicy) [aliceNode] \<noteq>
              Some (Inr rules)"
    by blast
  from p d n i p0 a s e m x k l c no show ?thesis by (intro conjI)
qed


text \<open>
  Claim C6 as stated fails: the ICMP rule from the undeclared group to \<^verbatim>\<open>*:22\<close> makes
  \<^verbatim>\<open>CompileFilterRules\<close> fail with the invalid-group error of its source, not with the
  wildcard-required error.
\<close>

theorem wildcard_required_after_source_error:
  "parseProtocol (Protocol groupPortACL) = Inr ([protocolICMP, protocolIPv6ICMP], True) \<and>
   Destinations groupPortACL = [''*:22''] \<and>
   parseDestination testLib ''*:22'' = Inr (''*'', ''22'') \<and>
   CompileFilterRules testLib (Some groupPortPolicy) [] = Some (Inl unknownGroupError) \<and>
   \<not> errors_Is unknownGroupError ErrWildcardIsNeeded"
proof -
  have "CompileFilterRules testLib (Some groupPortPolicy) [] = Some (Inl unknownGroupError)"
    by (rule unknown_group_policy [where acl = groupPortACL])
       (simp_all add: groupPortPolicy_def groupPortACL_def)
  then show ?thesis
    by (simp add: parseDestination_examples parseProtocol_examples unknownGroupError_def
        groupPortACL_def)
qed

end
